theory Spec2Isabelle
  imports Main "HOL-Library.List_Lexorder" "HOL-Library.Char_ord" "HOL-Library.Code_Target_Nat"
begin

section \<open>Strings\<close>

text \<open>
  A JavaScript string is a sequence of code units. The model uses \<^typ>\<open>string\<close>, so a
  character is a code unit below 256 (ASCII and Latin-1); the functions below are the
  string methods of the standard library that \<^verbatim>\<open>src/index.js\<close>,
  \<^verbatim>\<open>src/filters.js\<close> and \<^verbatim>\<open>src/utils.js\<close> call, restricted to that range.
\<close>

abbreviation BACKSLASH :: char where "BACKSLASH \<equiv> CHR 0x5C"
abbreviation DQUOTE :: char where "DQUOTE \<equiv> CHR 0x22"
abbreviation SQUOTE :: char where "SQUOTE \<equiv> CHR 0x27"
abbreviation LF :: char where "LF \<equiv> CHR 0x0A"
abbreviation CR :: char where "CR \<equiv> CHR 0x0D"
abbreviation TAB :: char where "TAB \<equiv> CHR 0x09"

text \<open>\<^verbatim>\<open>s.split(d)\<close> for a one-character separator: never the empty array.\<close>

fun split_char :: "char \<Rightarrow> string \<Rightarrow> string list" where
  "split_char d [] = [[]]"
| "split_char d (c # cs) =
     (if c = d then [] # split_char d cs
      else (case split_char d cs of
              [] \<Rightarrow> [[c]]
            | w # ws \<Rightarrow> (c # w) # ws))"

text \<open>\<^verbatim>\<open>xs.join(sep)\<close> and \<^verbatim>\<open>s.includes(t)\<close>.\<close>

fun join :: "string \<Rightarrow> string list \<Rightarrow> string" where
  "join sep [] = []"
| "join sep [x] = x"
| "join sep (x # y # ys) = x @ sep @ join sep (y # ys)"

fun str_includes :: "string \<Rightarrow> string \<Rightarrow> bool" where
  "str_includes [] t \<longleftrightarrow> t = []"
| "str_includes (c # cs) t \<longleftrightarrow> take (length t) (c # cs) = t \<or> str_includes cs t"

text \<open>
  The white space and line terminators that \<^verbatim>\<open>trim()\<close> removes, as far as they are
  below 256: tab, line feed, vertical tab, form feed, carriage return, space and the
  no-break space.
\<close>

definition js_whitespace :: "char \<Rightarrow> bool" where
  "js_whitespace c \<longleftrightarrow>
     c \<in> set [CHR 0x09, CHR 0x0A, CHR 0x0B, CHR 0x0C, CHR 0x0D, CHR 0x20, CHR 0xA0]"

definition trim :: "string \<Rightarrow> string" where
  "trim s = rev (dropWhile js_whitespace (rev (dropWhile js_whitespace s)))"

text \<open>\<^verbatim>\<open>s.indexOf(c)\<close>, with \<open>None\<close> for the result \<open>-1\<close>.\<close>

fun indexOf :: "char \<Rightarrow> string \<Rightarrow> nat option" where
  "indexOf c [] = None"
| "indexOf c (x # xs) = (if x = c then Some 0 else map_option Suc (indexOf c xs))"

text \<open>\<^verbatim>\<open>s.substring(i, j)\<close> and \<^verbatim>\<open>s.substring(i)\<close> for \<open>i \<le> j\<close>.\<close>

definition substring :: "string \<Rightarrow> nat \<Rightarrow> nat \<Rightarrow> string" where
  "substring s i j = take (j - i) (drop i s)"

definition substring_from :: "string \<Rightarrow> nat \<Rightarrow> string" where
  "substring_from s i = drop i s"

definition startsWith :: "string \<Rightarrow> string \<Rightarrow> bool" where
  "startsWith s p \<longleftrightarrow> take (length p) s = p"

definition endsWith :: "string \<Rightarrow> string \<Rightarrow> bool" where
  "endsWith s p \<longleftrightarrow> length p \<le> length s \<and> drop (length s - length p) s = p"

text \<open>\<^verbatim>\<open>s.slice(1, -1)\<close>: from index 1 to the index before the last one.\<close>

definition slice_1_neg1 :: "string \<Rightarrow> string" where
  "slice_1_neg1 s = take (length s - 2) (drop 1 s)"

text \<open>
  \<^verbatim>\<open>s.replace(/ab/g, r)\<close> for a pattern of two literal characters \<open>a\<close>, \<open>b\<close> and a
  replacement of one character: the matches are found from left to right and do not
  overlap.
\<close>

fun replace_pair :: "char \<Rightarrow> char \<Rightarrow> char \<Rightarrow> string \<Rightarrow> string" where
  "replace_pair a b r (x # y # zs) =
     (if x = a \<and> y = b then r # replace_pair a b r zs
      else x # replace_pair a b r (y # zs))"
| "replace_pair a b r zs = zs"

section \<open>Objects\<close>

text \<open>
  The environment mapping is a plain JavaScript object with string values. It is
  modelled by the list of its own properties in the order in which
  \<^verbatim>\<open>Object.keys\<close>, \<^verbatim>\<open>Object.entries\<close>, the spread syntax and
  \<^verbatim>\<open>JSON.stringify\<close> enumerate them: the keys that are array indices (canonical
  decimal numerals below \<open>2^32 - 1\<close>) first, in ascending numeric order, then the other
  keys in the order of their creation.
\<close>

type_synonym jsobj = "(string \<times> string) list"

definition is_digit :: "char \<Rightarrow> bool" where
  "is_digit c \<longleftrightarrow> CHR ''0'' \<le> c \<and> c \<le> CHR ''9''"

definition digit_val :: "char \<Rightarrow> nat" where
  "digit_val c = of_char c - 48"

definition decimal :: "string \<Rightarrow> nat" where
  "decimal k = foldl (\<lambda>a c. 10 * a + digit_val c) 0 k"

definition array_index :: "string \<Rightarrow> nat option" where
  "array_index k =
     (if k \<noteq> [] \<and> list_all is_digit k \<and> (hd k \<noteq> CHR ''0'' \<or> length k = 1)
      then (let n = decimal k in if n < 4294967295 then Some n else None)
      else None)"

definition has_own :: "jsobj \<Rightarrow> string \<Rightarrow> bool" where
  "has_own obj k \<longleftrightarrow> k \<in> set (map fst obj)"

definition update_own :: "string \<Rightarrow> string \<Rightarrow> jsobj \<Rightarrow> jsobj" where
  "update_own k v obj = map (\<lambda>(k', v'). if k' = k then (k', v) else (k', v')) obj"

fun insert_indexed :: "nat \<Rightarrow> string \<Rightarrow> string \<Rightarrow> jsobj \<Rightarrow> jsobj" where
  "insert_indexed n k v [] = [(k, v)]"
| "insert_indexed n k v ((k', v') # r) =
     (case array_index k' of
        Some m \<Rightarrow> if m < n then (k', v') # insert_indexed n k v r
                  else (k, v) # (k', v') # r
      | None \<Rightarrow> (k, v) # (k', v') # r)"

text \<open>A property that the object does not have yet takes its place in the enumeration.\<close>

definition define_new :: "string \<Rightarrow> string \<Rightarrow> jsobj \<Rightarrow> jsobj" where
  "define_new k v obj =
     (case array_index k of
        Some n \<Rightarrow> insert_indexed n k v obj
      | None \<Rightarrow> obj @ [(k, v)])"

text \<open>
  The assignment \<^verbatim>\<open>obj[k] = v\<close> of a string \<open>v\<close> to an object created by
  \<^verbatim>\<open>{}\<close>: an own property is overwritten in place; a new key is created, except
  \<^verbatim>\<open>__proto__\<close>, which reaches the setter of \<^verbatim>\<open>Object.prototype\<close>, and that
  setter ignores a value that is neither an object nor null.
\<close>

definition obj_set :: "jsobj \<Rightarrow> string \<Rightarrow> string \<Rightarrow> jsobj" where
  "obj_set obj k v =
     (if has_own obj k then update_own k v obj
      else if k = ''__proto__'' then obj
      else define_new k v obj)"

text \<open>
  The definition of a data property, as \<^verbatim>\<open>JSON.parse\<close> does it for every member: no
  setter is called, \<^verbatim>\<open>__proto__\<close> is a key like any other.
\<close>

definition obj_define :: "jsobj \<Rightarrow> string \<Rightarrow> string \<Rightarrow> jsobj" where
  "obj_define obj k v = (if has_own obj k then update_own k v obj else define_new k v obj)"

text \<open>\<^verbatim>\<open>delete obj[k]\<close> and the read \<^verbatim>\<open>obj[k]\<close> of an own property.\<close>

definition obj_delete :: "jsobj \<Rightarrow> string \<Rightarrow> jsobj" where
  "obj_delete obj k = filter (\<lambda>(k', v'). k' \<noteq> k) obj"

definition obj_get :: "jsobj \<Rightarrow> string \<Rightarrow> string option" where
  "obj_get obj k = map_of obj k"

text \<open>
  The copy \<^verbatim>\<open>{ ...obj }\<close> has the own properties of \<open>obj\<close>, in the same order.
\<close>

definition spread :: "jsobj \<Rightarrow> jsobj" where
  "spread obj = obj"

text \<open>
  The lists that are enumerations of an object: no key twice, the array indices first
  and in strictly ascending order.
\<close>

definition key_before :: "string \<Rightarrow> string \<Rightarrow> bool" where
  "key_before k k' =
     (case array_index k' of
        None \<Rightarrow> True
      | Some m \<Rightarrow> (case array_index k of None \<Rightarrow> False | Some n \<Rightarrow> n < m))"

definition wf_obj :: "jsobj \<Rightarrow> bool" where
  "wf_obj obj \<longleftrightarrow> distinct (map fst obj) \<and> sorted_wrt key_before (map fst obj)"

text \<open>What a failing call throws, with its message.\<close>

datatype js_error = TypeError string | SyntaxError string | Error string

fun message :: "js_error \<Rightarrow> string" where
  "message (TypeError m) = m"
| "message (SyntaxError m) = m"
| "message (Error m) = m"

text \<open>
  The call \<^verbatim>\<open>env.hasOwnProperty(key)\<close>: the method is inherited from
  \<^verbatim>\<open>Object.prototype\<close> unless \<open>env\<close> has an own property of that name, whose value
  is a string and cannot be called.
\<close>

definition call_hasOwnProperty :: "jsobj \<Rightarrow> string \<Rightarrow> js_error + bool" where
  "call_hasOwnProperty env key =
     (if has_own env ''hasOwnProperty''
      then Inl (TypeError ''env.hasOwnProperty is not a function'')
      else Inr (has_own env key))"

section \<open>The parser: \<^verbatim>\<open>parseEnv\<close> in \<^verbatim>\<open>src/index.js\<close>\<close>

text \<open>The six chained \<^verbatim>\<open>replace\<close> calls of lines 35 to 40, innermost first.\<close>

definition unescape :: "string \<Rightarrow> string" where
  "unescape v =
     replace_pair BACKSLASH SQUOTE SQUOTE
      (replace_pair BACKSLASH DQUOTE DQUOTE
        (replace_pair BACKSLASH BACKSLASH BACKSLASH
          (replace_pair BACKSLASH (CHR ''t'') TAB
            (replace_pair BACKSLASH (CHR ''r'') CR
              (replace_pair BACKSLASH (CHR ''n'') LF v)))))"

text \<open>Line 16: \<^verbatim>\<open>line.split('#')[0].trim()\<close>.\<close>

definition strip_comment :: "string \<Rightarrow> string" where
  "strip_comment line = trim (hd (split_char (CHR ''#'') line))"

text \<open>
  The body of the loop over the lines: \<open>None\<close> where the body reaches a
  \<^verbatim>\<open>continue\<close>, otherwise the key and the value that line 42 assigns.
\<close>

definition parse_line :: "string \<Rightarrow> (string \<times> string) option" where
  "parse_line raw =
     (let line = strip_comment raw in
      if line = [] then None
      else (case indexOf (CHR ''='') line of
              None \<Rightarrow> None
            | Some equalIndex \<Rightarrow>
                (let key = trim (substring line 0 equalIndex);
                     val = trim (substring_from line (equalIndex + 1));
                     val' = (if (startsWith val [DQUOTE] \<and> endsWith val [DQUOTE]) \<or>
                                (startsWith val [SQUOTE] \<and> endsWith val [SQUOTE])
                             then slice_1_neg1 val else val)
                 in Some (key, unescape val'))))"

definition parse_step :: "jsobj \<Rightarrow> string \<Rightarrow> jsobj" where
  "parse_step env raw =
     (case parse_line raw of
        None \<Rightarrow> env
      | Some (key, val) \<Rightarrow> obj_set env key val)"

definition parseEnv :: "string \<Rightarrow> jsobj" where
  "parseEnv content = foldl parse_step [] (split_char LF content)"

text \<open>
  The reading of comment removal in the specification, for comparison with
  \<open>strip_comment\<close>: the text before the first \<^verbatim>\<open>#\<close> that no backslash precedes.
\<close>

fun cut_at_unescaped_hash :: "string \<Rightarrow> string" where
  "cut_at_unescaped_hash [] = []"
| "cut_at_unescaped_hash (c # cs) =
     (if c = CHR ''#'' then []
      else if c = BACKSLASH \<and> cs \<noteq> [] \<and> hd cs = CHR ''#''
           then c # CHR ''#'' # cut_at_unescaped_hash (tl cs)
      else c # cut_at_unescaped_hash cs)"






section \<open>The filters: \<^verbatim>\<open>src/filters.js\<close>\<close>

text \<open>
  The options object of \<^verbatim>\<open>applyFilters\<close> and \<^verbatim>\<open>validateFilters\<close>; \<open>None\<close> is a
  field that is absent or null.
\<close>

record filter_options =
  whitelist :: "string list option"
  exclude :: "string list option"
  prefix :: "string option"

text \<open>The tests \<^verbatim>\<open>xs && xs.length > 0\<close> on an array and \<^verbatim>\<open>if (s)\<close> on a string.\<close>

definition non_empty :: "string list option \<Rightarrow> bool" where
  "non_empty xs = (case xs of None \<Rightarrow> False | Some ys \<Rightarrow> ys \<noteq> [])"

definition truthy :: "string option \<Rightarrow> bool" where
  "truthy s = (case s of None \<Rightarrow> False | Some t \<Rightarrow> t \<noteq> [])"

fun applyWhitelist_loop :: "jsobj \<Rightarrow> string list \<Rightarrow> jsobj \<Rightarrow> js_error + jsobj" where
  "applyWhitelist_loop env [] filtered = Inr filtered"
| "applyWhitelist_loop env (key # keys) filtered =
     (case call_hasOwnProperty env key of
        Inl e \<Rightarrow> Inl e
      | Inr own \<Rightarrow>
          applyWhitelist_loop env keys
            (if own
             then (case obj_get env key of
                     None \<Rightarrow> filtered
                   | Some v \<Rightarrow> obj_set filtered key v)
             else filtered))"

definition applyWhitelist :: "jsobj \<Rightarrow> string list option \<Rightarrow> js_error + jsobj" where
  "applyWhitelist env wl =
     (if \<not> non_empty wl then Inr env
      else applyWhitelist_loop env (the wl) [])"

definition applyExclude :: "jsobj \<Rightarrow> string list option \<Rightarrow> jsobj" where
  "applyExclude env ex =
     (if \<not> non_empty ex then env
      else foldl obj_delete (spread env) (the ex))"

definition applyPrefix :: "jsobj \<Rightarrow> string option \<Rightarrow> jsobj" where
  "applyPrefix env p =
     (if \<not> truthy p then env
      else foldl (\<lambda>filtered (key, val).
                    if startsWith key (the p) then obj_set filtered key val else filtered)
             [] env)"

text \<open>
  \<^verbatim>\<open>applyFilters\<close>, lines 71 to 90: the three steps in the order of the source; the
  whitelist step reads \<open>env\<close>, not \<open>filtered\<close>.
\<close>

definition applyFilters :: "jsobj \<Rightarrow> filter_options \<Rightarrow> js_error + jsobj" where
  "applyFilters env options =
     (let filtered = env;
          filtered = (if truthy (prefix options) then applyPrefix filtered (prefix options)
                      else filtered)
      in case (if non_empty (whitelist options) then applyWhitelist env (whitelist options)
               else Inr filtered) of
           Inl e \<Rightarrow> Inl e
         | Inr filtered \<Rightarrow>
             Inr (if non_empty (exclude options) then applyExclude filtered (exclude options)
                  else filtered))"

text \<open>
  \<^verbatim>\<open>validateFilters\<close>: the result, and the warning it prints. The fields are arrays
  and strings by their types, so the test of lines 114 to 116 never adds an error.
\<close>

record validation =
  valid :: bool
  errors :: "string list"

definition validateFilters :: "filter_options \<Rightarrow> validation \<times> string list" where
  "validateFilters options =
     (let warned = (if whitelist options \<noteq> None \<and> truthy (prefix options)
                    then [''Warning: Both whitelist and prefix specified. Whitelist takes precedence.'']
                    else []);
          errs = (if whitelist options = Some [] then [''Whitelist cannot be empty when specified'']
                  else []) @
                 (if exclude options = Some [] then [''Exclude list cannot be empty when specified'']
                  else [])
      in (\<lparr>valid = (errs = []), errors = errs\<rparr>, warned))"

text \<open>The order in which a list names its elements for the first time.\<close>

fun first_occurrences :: "'a list \<Rightarrow> 'a list" where
  "first_occurrences [] = []"
| "first_occurrences (x # xs) = x # filter (\<lambda>y. y \<noteq> x) (first_occurrences xs)"

text \<open>The keys that the exclude step removes, and the plain keys (no array index).\<close>

definition excluded :: "filter_options \<Rightarrow> string \<Rightarrow> bool" where
  "excluded options k \<longleftrightarrow> non_empty (exclude options) \<and> k \<in> set (the (exclude options))"

definition plain_key :: "string \<Rightarrow> bool" where
  "plain_key k \<longleftrightarrow> array_index k = None"

text \<open>
  The whitelist order of the specification, for comparison with \<open>applyFilters\<close>: the
  keys of the whitelist that the mapping has, in the order of the whitelist.
\<close>

definition whitelist_order :: "jsobj \<Rightarrow> string list \<Rightarrow> string list" where
  "whitelist_order env wl = first_occurrences (filter (has_own env) wl)"

section \<open>Redaction: \<^verbatim>\<open>maskSecrets\<close> in \<^verbatim>\<open>src/utils.js\<close>\<close>

text \<open>
  Two library functions are parameters of the model: \<open>regexp p\<close> is
  \<^verbatim>\<open>new RegExp(p, 'i')\<close>, which throws a syntax error or gives the function
  \<^verbatim>\<open>test\<close> of the pattern, and \<open>yaml_dump\<close> is \<^verbatim>\<open>yaml.dump\<close> of js-yaml with the
  options of line 60 of \<^verbatim>\<open>src/index.js\<close>.
\<close>

record externals =
  regexp :: "string \<Rightarrow> js_error + (string \<Rightarrow> bool)"
  yaml_dump :: "jsobj \<Rightarrow> js_error + string"

definition REDACTED :: string where
  "REDACTED = ''***REDACTED***''"

definition maskSecrets :: "externals \<Rightarrow> jsobj \<Rightarrow> string list \<Rightarrow> js_error + jsobj" where
  "maskSecrets ext obj redactKeys =
     (if redactKeys = [] then Inr obj
      else (let masked = spread obj in
            case regexp ext (join ''|'' redactKeys) of
              Inl e \<Rightarrow> Inl e
            | Inr test \<Rightarrow>
                Inr (foldl (\<lambda>masked (key, val).
                              if test key \<or> test val then obj_set masked key REDACTED
                              else masked)
                       masked masked)))"

text \<open>
  The letters below 256 that have an upper and a lower case form there: the basic Latin
  alphabet and the Latin-1 letters (without the signs at D7 and F7).
\<close>

definition lower_case :: string where
  "lower_case = ''abcdefghijklmnopqrstuvwxyz'' @
     [CHR 0xE0, CHR 0xE1, CHR 0xE2, CHR 0xE3, CHR 0xE4, CHR 0xE5, CHR 0xE6, CHR 0xE7,
      CHR 0xE8, CHR 0xE9, CHR 0xEA, CHR 0xEB, CHR 0xEC, CHR 0xED, CHR 0xEE, CHR 0xEF,
      CHR 0xF0, CHR 0xF1, CHR 0xF2, CHR 0xF3, CHR 0xF4, CHR 0xF5, CHR 0xF6, CHR 0xF8,
      CHR 0xF9, CHR 0xFA, CHR 0xFB, CHR 0xFC, CHR 0xFD, CHR 0xFE]"

definition upper_case :: string where
  "upper_case = ''ABCDEFGHIJKLMNOPQRSTUVWXYZ'' @
     [CHR 0xC0, CHR 0xC1, CHR 0xC2, CHR 0xC3, CHR 0xC4, CHR 0xC5, CHR 0xC6, CHR 0xC7,
      CHR 0xC8, CHR 0xC9, CHR 0xCA, CHR 0xCB, CHR 0xCC, CHR 0xCD, CHR 0xCE, CHR 0xCF,
      CHR 0xD0, CHR 0xD1, CHR 0xD2, CHR 0xD3, CHR 0xD4, CHR 0xD5, CHR 0xD6, CHR 0xD8,
      CHR 0xD9, CHR 0xDA, CHR 0xDB, CHR 0xDC, CHR 0xDD, CHR 0xDE]"

text \<open>
  What the language definition says of a pattern without a syntax character other than
  \<^verbatim>\<open>|\<close>: it is an alternation of literal strings, and with the flag \<^verbatim>\<open>i\<close> two
  characters match when their canonical forms (the upper case letter, below 256) are
  equal.
\<close>

definition syntax_char :: "char \<Rightarrow> bool" where
  "syntax_char c \<longleftrightarrow> c \<in> set (''^$.*+?()[]{}|'' @ [BACKSLASH])"

definition canonicalize :: "char \<Rightarrow> char" where
  "canonicalize c = (case map_of (zip lower_case upper_case) c of None \<Rightarrow> c | Some u \<Rightarrow> u)"

definition includes_ci :: "string \<Rightarrow> string \<Rightarrow> bool" where
  "includes_ci s t \<longleftrightarrow> str_includes (map canonicalize s) (map canonicalize t)"

definition literal_alternation :: "externals \<Rightarrow> bool" where
  "literal_alternation ext \<longleftrightarrow>
     (\<forall>ts. ts \<noteq> [] \<and> (\<forall>t \<in> set ts. \<forall>c \<in> set t. \<not> syntax_char c) \<longrightarrow>
        (\<exists>test. regexp ext (join ''|'' ts) = Inr test \<and>
                (\<forall>s. test s \<longleftrightarrow> (\<exists>t \<in> set ts. includes_ci s t))))"

text \<open>
  The redaction of the specification, for comparison with \<open>maskSecrets\<close>: an entry is
  redacted when a term occurs in its key or in its value, case-insensitively.
\<close>

definition term_occurs :: "string list \<Rightarrow> string \<times> string \<Rightarrow> bool" where
  "term_occurs ts e \<longleftrightarrow> (\<exists>t \<in> set ts. includes_ci (fst e) t \<or> includes_ci (snd e) t)"

definition redact_by_terms :: "string list \<Rightarrow> jsobj \<Rightarrow> jsobj" where
  "redact_by_terms ts obj = map (\<lambda>e. if term_occurs ts e then (fst e, REDACTED) else e) obj"

text \<open>
  An instance of the parameters, for concrete inputs: every character of a pattern but
  \<^verbatim>\<open>|\<close> is taken literally, and the YAML document is not modelled.
\<close>

definition literal_externals :: externals where
  "literal_externals =
     \<lparr>regexp = (\<lambda>p. Inr (\<lambda>s. \<exists>t \<in> set (split_char (CHR ''|'') p). includes_ci s t)),
      yaml_dump = (\<lambda>obj. Inr [])\<rparr>"

section \<open>Serialisation and the example file: \<^verbatim>\<open>src/index.js\<close>\<close>

text \<open>\<^verbatim>\<open>s.toLowerCase()\<close>, below 256.\<close>

definition toLowerCase :: "string \<Rightarrow> string" where
  "toLowerCase s =
     map (\<lambda>c. case map_of (zip upper_case lower_case) c of None \<Rightarrow> c | Some l \<Rightarrow> l) s"

text \<open>
  \<^verbatim>\<open>JSON.stringify(obj, null, 2)\<close> for an object with string values: the quoted
  form of a string, then the members on lines of their own, indented by two spaces.
\<close>

definition hex_digit :: "nat \<Rightarrow> char" where
  "hex_digit n = ''0123456789abcdef'' ! n"

definition quote_char :: "char \<Rightarrow> string" where
  "quote_char c =
     (if c = CHR 0x08 then [BACKSLASH, CHR ''b'']
      else if c = TAB then [BACKSLASH, CHR ''t'']
      else if c = LF then [BACKSLASH, CHR ''n'']
      else if c = CHR 0x0C then [BACKSLASH, CHR ''f'']
      else if c = CR then [BACKSLASH, CHR ''r'']
      else if c = DQUOTE then [BACKSLASH, DQUOTE]
      else if c = BACKSLASH then [BACKSLASH, BACKSLASH]
      else if (of_char c :: nat) < 32
           then [BACKSLASH, CHR ''u'', CHR ''0'', CHR ''0'',
                 hex_digit (of_char c div 16), hex_digit (of_char c mod 16)]
      else [c])"

definition quote :: "string \<Rightarrow> string" where
  "quote s = DQUOTE # concat (map quote_char s) @ [DQUOTE]"

definition JSON_member :: "string \<times> string \<Rightarrow> string" where
  "JSON_member e = ''  '' @ quote (fst e) @ '': '' @ quote (snd e)"

definition JSON_stringify :: "jsobj \<Rightarrow> string" where
  "JSON_stringify obj =
     (if obj = [] then ''{}''
      else ''{'' @ [LF] @ join ('','' @ [LF]) (map JSON_member obj) @ [LF] @ ''}'')"

definition formatOutput :: "externals \<Rightarrow> jsobj \<Rightarrow> string \<Rightarrow> js_error + string" where
  "formatOutput ext obj format =
     (let f = toLowerCase format in
      if f = ''json'' then Inr (JSON_stringify obj)
      else if f = ''yaml'' then yaml_dump ext obj
      else if f = ''js'' then Inr (''module.exports = '' @ JSON_stringify obj @ '';'')
      else Inl (Error (''Unsupported format: '' @ format @
                       ''. Supported formats: json, yaml, js'')))"

text \<open>
  \<^verbatim>\<open>JSON.parse\<close>, as the language defines it, for the texts that are one object whose
  members are strings of characters below 256: \<open>None\<close> is a syntax error or a text of
  another form. White space is skipped between the tokens; a string ends at the first
  quote that no backslash precedes and may not contain a control character; the members
  are defined in the order of the text, a later one of the same name replacing the value
  of the earlier one.
\<close>

definition json_ws :: "char \<Rightarrow> bool" where
  "json_ws c \<longleftrightarrow> c = CHR '' '' \<or> c = TAB \<or> c = LF \<or> c = CR"

definition skip_ws :: "string \<Rightarrow> string" where
  "skip_ws s = dropWhile json_ws s"

definition hex_val :: "char \<Rightarrow> nat option" where
  "hex_val c =
     (let n = of_char c :: nat in
      if 48 \<le> n \<and> n \<le> 57 then Some (n - 48)
      else if 97 \<le> n \<and> n \<le> 102 then Some (n - 87)
      else if 65 \<le> n \<and> n \<le> 70 then Some (n - 55)
      else None)"

definition json_escape :: "char \<Rightarrow> char option" where
  "json_escape e =
     map_of [(DQUOTE, DQUOTE), (BACKSLASH, BACKSLASH), (CHR ''/'', CHR ''/''),
             (CHR ''b'', CHR 0x08), (CHR ''f'', CHR 0x0C), (CHR ''n'', LF),
             (CHR ''r'', CR), (CHR ''t'', TAB)] e"

definition code_unit :: "nat \<Rightarrow> nat \<Rightarrow> nat \<Rightarrow> nat \<Rightarrow> char option" where
  "code_unit a b c d =
     (let n = 4096 * a + 256 * b + 16 * c + d in if n < 256 then Some (char_of n) else None)"

fun parse_chars :: "string \<Rightarrow> (string \<times> string) option" where
  "parse_chars [] = None"
| "parse_chars (c # cs) =
     (if c = DQUOTE then Some ([], cs)
      else if c = BACKSLASH
      then (case cs of
              [] \<Rightarrow> None
            | e # es \<Rightarrow>
                if e = CHR ''u''
                then (case es of
                        h1 # h2 # h3 # h4 # rest \<Rightarrow>
                          (case (hex_val h1, hex_val h2, hex_val h3, hex_val h4) of
                             (Some a, Some b, Some c, Some d) \<Rightarrow>
                               (case code_unit a b c d of
                                  None \<Rightarrow> None
                                | Some x \<Rightarrow>
                                    map_option (\<lambda>(s, r). (x # s, r)) (parse_chars rest))
                           | _ \<Rightarrow> None)
                      | _ \<Rightarrow> None)
                else (case json_escape e of
                        None \<Rightarrow> None
                      | Some x \<Rightarrow> map_option (\<lambda>(s, r). (x # s, r)) (parse_chars es)))
      else if (of_char c :: nat) < 32 then None
      else map_option (\<lambda>(s, r). (c # s, r)) (parse_chars cs))"

definition parse_string :: "string \<Rightarrow> (string \<times> string) option" where
  "parse_string s =
     (case s of
        [] \<Rightarrow> None
      | c # cs \<Rightarrow> if c = DQUOTE then parse_chars cs else None)"

definition parse_member :: "string \<Rightarrow> ((string \<times> string) \<times> string) option" where
  "parse_member s =
     (case parse_string s of
        None \<Rightarrow> None
      | Some (k, r) \<Rightarrow>
          (case skip_ws r of
             [] \<Rightarrow> None
           | c # r' \<Rightarrow>
               if c = CHR '':''
               then (case parse_string (skip_ws r') of
                       None \<Rightarrow> None
                     | Some (v, r'') \<Rightarrow> Some ((k, v), r''))
               else None))"

lemma parse_chars_shorter: "parse_chars s = Some (x, r) \<Longrightarrow> length r < length s"
proof (induction s arbitrary: x r rule: parse_chars.induct)
  case 1
  then show ?case by simp
next
  case (2 c cs)
  then show ?case
    by (fastforce split: if_splits list.splits option.splits prod.splits)
qed

lemma parse_string_shorter: "parse_string s = Some (x, r) \<Longrightarrow> length r < length s"
  by (auto simp: parse_string_def split: list.splits if_splits dest: parse_chars_shorter)

lemma skip_ws_length: "length (skip_ws s) \<le> length s"
  by (simp add: skip_ws_def length_dropWhile_le)

lemma parse_member_shorter: "parse_member s = Some (e, r) \<Longrightarrow> length r < length s"
proof -
  assume a: "parse_member s = Some (e, r)"
  then obtain k r1 c r2 v where
    s1: "parse_string s = Some (k, r1)" and s2: "skip_ws r1 = c # r2"
    and s3: "parse_string (skip_ws r2) = Some (v, r)"
    by (auto simp: parse_member_def split: option.splits list.splits if_splits)
  have "length r < length (skip_ws r2)" using s3 by (rule parse_string_shorter)
  also have "\<dots> \<le> length r2" by (rule skip_ws_length)
  also have "\<dots> < length (skip_ws r1)" by (simp add: s2)
  also have "\<dots> \<le> length r1" by (rule skip_ws_length)
  also have "\<dots> < length s" using s1 by (rule parse_string_shorter)
  finally show ?thesis .
qed

function parse_members :: "jsobj \<Rightarrow> string \<Rightarrow> (jsobj \<times> string) option" where
  "parse_members obj s =
     (case parse_member s of
        None \<Rightarrow> None
      | Some ((k, v), r) \<Rightarrow>
          (case skip_ws r of
             [] \<Rightarrow> None
           | c # r' \<Rightarrow>
               if c = CHR '','' then parse_members (obj_define obj k v) (skip_ws r')
               else if c = CHR ''}'' then Some (obj_define obj k v, r')
               else None))"
  by pat_completeness auto
termination
proof (relation "measure (\<lambda>(obj, s). length s)")
  show "wf (measure (\<lambda>(obj, s). length s))" by simp
next
  fix obj s x2 x y k v c r'
  assume "parse_member s = Some x2" and "(x, y) = x2" and "(k, v) = x" and "skip_ws y = c # r'"
  then have "parse_member s = Some ((k, v), y)" by simp
  then have "length y < length s" by (rule parse_member_shorter)
  moreover have "length (skip_ws r') \<le> length r'" by (rule skip_ws_length)
  moreover have "length r' < length (skip_ws y)" using \<open>skip_ws y = c # r'\<close> by simp
  moreover have "length (skip_ws y) \<le> length y" by (rule skip_ws_length)
  ultimately show "((obj_define obj k v, skip_ws r'), obj, s) \<in> measure (\<lambda>(obj, s). length s)"
    by simp
qed

definition JSON_parse :: "string \<Rightarrow> jsobj option" where
  "JSON_parse text =
     (case skip_ws text of
        [] \<Rightarrow> None
      | c # r \<Rightarrow>
          if c = CHR ''{''
          then (case skip_ws r of
                  [] \<Rightarrow> None
                | d # r' \<Rightarrow>
                    if d = CHR ''}''
                    then (if skip_ws r' = [] then Some [] else None)
                    else (case parse_members [] (d # r') of
                            None \<Rightarrow> None
                          | Some (obj, rest) \<Rightarrow> if skip_ws rest = [] then Some obj else None))
          else None)"

text \<open>\<^verbatim>\<open>generateExample\<close>: the default \<^verbatim>\<open>sort()\<close> compares the keys code unit by code unit.\<close>

definition generateExample :: "jsobj \<Rightarrow> string" where
  "generateExample env = join [LF] (map (\<lambda>key. key @ ''='') (sort (map fst env))) @ [LF]"

text \<open>
  \<^verbatim>\<open>envFile.replace(/\.env.*$/, '.env.example')\<close>: the match starts at the first
  \<^verbatim>\<open>.env\<close> from which the end of the string is reached without a line terminator,
  since \<^verbatim>\<open>.\<close> matches none and \<^verbatim>\<open>$\<close> is the end of the string.
\<close>

definition line_terminator :: "char \<Rightarrow> bool" where
  "line_terminator c \<longleftrightarrow> c = LF \<or> c = CR"

fun example_path :: "string \<Rightarrow> string" where
  "example_path [] = []"
| "example_path (c # cs) =
     (if startsWith (c # cs) ''.env'' \<and> \<not> list_ex line_terminator (drop 4 (c # cs))
      then ''.env.example''
      else c # example_path cs)"

text \<open>
  The derivation of the path in the words of the claim, for comparison: the first
  \<^verbatim>\<open>.env\<close> and everything after it become \<^verbatim>\<open>.env.example\<close>.
\<close>

fun replace_from_first_env :: "string \<Rightarrow> string" where
  "replace_from_first_env [] = []"
| "replace_from_first_env (c # cs) =
     (if startsWith (c # cs) ''.env'' then ''.env.example''
      else c # replace_from_first_env cs)"

section \<open>The file system and \<^verbatim>\<open>convertEnv\<close>\<close>

text \<open>
  The part of the world that \<^verbatim>\<open>convertEnv\<close> touches: which paths exist, what reading a
  path gives (the content, or the message of the error of the operating system), whether
  writing to a path fails (creating the missing directories included) and with which
  message, and the lines printed by \<^verbatim>\<open>console.warn\<close>. A path is a name: two strings
  are two files. The directories that a write creates are not tracked.
\<close>

record world =
  fs_exists :: "string \<Rightarrow> bool"
  fs_read :: "string \<Rightarrow> string + string"
  fs_write_error :: "string \<Rightarrow> string option"
  console :: "string list"

definition fileExists :: "world \<Rightarrow> string \<Rightarrow> bool" where
  "fileExists w filePath = fs_exists w filePath"

definition readFile :: "world \<Rightarrow> string \<Rightarrow> js_error + string" where
  "readFile w filePath =
     (case fs_read w filePath of
        Inl m \<Rightarrow> Inl (Error (''Failed to read file '' @ filePath @ '': '' @ m))
      | Inr content \<Rightarrow> Inr content)"

definition writeFile :: "world \<Rightarrow> string \<Rightarrow> string \<Rightarrow> js_error + world" where
  "writeFile w filePath content =
     (case fs_write_error w filePath of
        Some m \<Rightarrow> Inl (Error (''Failed to write file '' @ filePath @ '': '' @ m))
      | None \<Rightarrow> Inr (w\<lparr>fs_exists := (fs_exists w)(filePath := True),
                         fs_read := (fs_read w)(filePath := Inr content)\<rparr>))"

definition warn :: "world \<Rightarrow> string list \<Rightarrow> world" where
  "warn w lines = w\<lparr>console := console w @ lines\<rparr>"

text \<open>The options of \<^verbatim>\<open>convertEnv\<close>, and the result descriptor.\<close>

record convert_options = filter_options +
  file_opt :: string
  format :: string
  output_opt :: "string option"
  redact :: "string list"
  generateExample_opt :: bool

record conversion =
  success :: bool
  data :: "string option"
  error :: "string option"
  message_of :: "string option"

definition failure :: "string \<Rightarrow> conversion" where
  "failure m = \<lparr>success = False, data = None, error = Some m, message_of = None\<rparr>"

text \<open>
  \<^verbatim>\<open>convertEnv\<close>, lines 94 to 183, in four parts. An exception inside the
  \<^verbatim>\<open>try\<close> block is a value \<open>Inl e\<close>, and the \<^verbatim>\<open>catch\<close> clause turns it into a
  failure with its message.

  Lines 122 to 133: the file to read, after the fallback to \<^verbatim>\<open>.env\<close>, or the failure.
\<close>

definition resolve_file :: "world \<Rightarrow> string \<Rightarrow> conversion + string \<times> world" where
  "resolve_file w file =
     (let envFile = file in
      if \<not> fileExists w envFile
      then (if envFile \<noteq> ''.env'' \<and> fileExists w ''.env''
            then Inr (''.env'', warn w [''File '' @ file @ '' not found, using .env instead''])
            else Inl (failure (''Environment file not found: '' @ envFile)))
      else Inr (envFile, w))"

text \<open>Lines 141 to 148: the branch of \<^verbatim>\<open>generateExample\<close>.\<close>

definition write_example :: "world \<Rightarrow> string \<Rightarrow> jsobj \<Rightarrow> conversion \<times> world" where
  "write_example w envFile env =
     (let exampleContent = generateExample env;
          exampleFile = example_path envFile
      in case writeFile w exampleFile exampleContent of
           Inl e \<Rightarrow> (failure (message e), w)
         | Inr w' \<Rightarrow>
             (\<lparr>success = True, data = Some exampleContent, error = None,
               message_of = Some (''Generated '' @ exampleFile)\<rparr>, w'))"

text \<open>Lines 162 to 175: the formatted output goes to a file or back to the caller.\<close>

definition deliver :: "world \<Rightarrow> string option \<Rightarrow> string \<Rightarrow> conversion \<times> world" where
  "deliver w output formattedOutput =
     (if truthy output
      then (case writeFile w (the output) formattedOutput of
              Inl e \<Rightarrow> (failure (message e), w)
            | Inr w' \<Rightarrow>
                (\<lparr>success = True, data = Some formattedOutput, error = None,
                  message_of = Some (''Output written to '' @ the output)\<rparr>, w'))
      else (\<lparr>success = True, data = Some formattedOutput, error = None,
             message_of = None\<rparr>, w))"

text \<open>Lines 151 to 160: filters, redaction and serialisation.\<close>

definition transform ::
  "externals \<Rightarrow> jsobj \<Rightarrow> convert_options \<Rightarrow> js_error + string" where
  "transform ext env options =
     (case applyFilters env (filter_options.truncate options) of
        Inl e \<Rightarrow> Inl e
      | Inr env \<Rightarrow>
          (case (if redact options \<noteq> [] then maskSecrets ext env (redact options)
                 else Inr env) of
             Inl e \<Rightarrow> Inl e
           | Inr env \<Rightarrow> formatOutput ext env (format options)))"

definition convertEnv :: "externals \<Rightarrow> world \<Rightarrow> convert_options \<Rightarrow> conversion \<times> world" where
  "convertEnv ext w options =
     (let filterOptions =
            \<lparr>whitelist = (if non_empty (whitelist options) then whitelist options else None),
             exclude = (if non_empty (exclude options) then exclude options else None),
             prefix = (if truthy (prefix options) then prefix options else None)\<rparr>;
          (filterValidation, warned) = validateFilters filterOptions;
          w = warn w warned
      in if \<not> valid filterValidation
         then (failure (''Filter validation failed: '' @ join '', '' (errors filterValidation)), w)
         else (case resolve_file w (file_opt options) of
                 Inl failed \<Rightarrow> (failed, w)
               | Inr (envFile, w) \<Rightarrow>
                   (case readFile w envFile of
                      Inl e \<Rightarrow> (failure (message e), w)
                    | Inr content \<Rightarrow>
                        (let env = parseEnv content in
                         if generateExample_opt options then write_example w envFile env
                         else (case transform ext env options of
                                 Inl e \<Rightarrow> (failure (message e), w)
                               | Inr formattedOutput \<Rightarrow>
                                   deliver w (output_opt options) formattedOutput)))))"

text \<open>
  Two worlds have the same files when they differ at most in what was printed. A world
  and options for concrete runs: the files \<^verbatim>\<open>.env\<close> and \<^verbatim>\<open>settings\<close> exist, with
  the content \<^verbatim>\<open>B=1\<close>, \<^verbatim>\<open>A=2\<close> on two lines, and every write succeeds.
\<close>

definition same_files :: "world \<Rightarrow> world \<Rightarrow> bool" where
  "same_files w w' \<longleftrightarrow>
     fs_exists w = fs_exists w' \<and> fs_read w = fs_read w' \<and>
     fs_write_error w = fs_write_error w'"

definition sample_world :: world where
  "sample_world =
     \<lparr>fs_exists = (\<lambda>p. p = ''.env'' \<or> p = ''settings''),
      fs_read = (\<lambda>p. if p = ''.env'' \<or> p = ''settings'' then Inr (''B=1'' @ [LF] @ ''A=2'')
                      else Inl ''ENOENT: no such file or directory''),
      fs_write_error = (\<lambda>p. None),
      console = []\<rparr>"

definition sample_options :: convert_options where
  "sample_options =
     \<lparr>whitelist = Some [], exclude = Some [], prefix = None, file_opt = ''.env'',
      format = ''json'', output_opt = None, redact = [], generateExample_opt = False\<rparr>"

text \<open>
  Lines 122 to 149 in a row, as \<^verbatim>\<open>convertEnv\<close> runs them when
  \<^verbatim>\<open>generateExample\<close> is set.
\<close>

definition example_run :: "world \<Rightarrow> string \<Rightarrow> conversion \<times> world" where
  "example_run w file =
     (case resolve_file w file of
        Inl failed \<Rightarrow> (failed, w)
      | Inr (envFile, w) \<Rightarrow>
          (case readFile w envFile of
             Inl e \<Rightarrow> (failure (message e), w)
           | Inr content \<Rightarrow> write_example w envFile (parseEnv content)))"

text \<open>The invariant of the result descriptor.\<close>

definition descriptor :: "conversion \<Rightarrow> bool" where
  "descriptor r \<longleftrightarrow>
     (\<not> success r \<longrightarrow> error r \<noteq> None \<and> data r = None \<and> message_of r = None) \<and>
     (success r \<longrightarrow> data r \<noteq> None \<or> message_of r \<noteq> None)"

section \<open>Properties of the parser\<close>

lemmas parse_defs =
  parseEnv_def parse_step_def parse_line_def strip_comment_def trim_def js_whitespace_def
  substring_def substring_from_def startsWith_def endsWith_def slice_1_neg1_def unescape_def
  obj_set_def has_own_def define_new_def array_index_def is_digit_def update_own_def
  decimal_def digit_val_def

lemma split_char_not_Nil: "split_char d s \<noteq> []"
  by (induction s) (auto split: list.splits)

lemma hd_split_char: "hd (split_char d s) = takeWhile (\<lambda>c. c \<noteq> d) s"
  by (induction s) (auto split: list.splits simp: split_char_not_Nil)

lemma strip_comment_takeWhile:
  "strip_comment (takeWhile (\<lambda>c. c \<noteq> CHR ''#'') raw) = strip_comment raw"
  by (simp add: strip_comment_def hd_split_char)

lemma parse_line_takeWhile:
  "parse_line (takeWhile (\<lambda>c. c \<noteq> CHR ''#'') raw) = parse_line raw"
  by (simp add: parse_line_def strip_comment_takeWhile)

text \<open>
  Claim C2, as the code has it: for every input line, \<^verbatim>\<open>parseEnv\<close> drops everything
  from the first \<^verbatim>\<open>#\<close> onward before any further processing, whatever precedes that
  \<^verbatim>\<open>#\<close> (a backslash, an opening quote): the line is processed as its part before the
  first \<^verbatim>\<open>#\<close>.
\<close>

theorem comment_starts_at_first_hash:
  "hd (split_char (CHR ''#'') raw) = takeWhile (\<lambda>c. c \<noteq> CHR ''#'') raw \<and>
   parse_step env (a @ CHR ''#'' # b) = parse_step env (takeWhile (\<lambda>c. c \<noteq> CHR ''#'') a)"
proof -
  have "takeWhile (\<lambda>c. c \<noteq> CHR ''#'') (a @ CHR ''#'' # b) = takeWhile (\<lambda>c. c \<noteq> CHR ''#'') a"
    by (induction a) auto
  then have "parse_line (a @ CHR ''#'' # b) = parse_line (takeWhile (\<lambda>c. c \<noteq> CHR ''#'') a)"
    by (metis parse_line_takeWhile)
  then show ?thesis
    by (simp add: parse_step_def hd_split_char)
qed

text \<open>
  The theorem at the line \<^verbatim>\<open>K="a#b"\<close>: the \<^verbatim>\<open>#\<close> inside the quotes starts the
  comment, and the value keeps the opening quote.
\<close>

theorem comment_starts_at_first_hash_witness:
  "parse_step [] (''K='' @ [DQUOTE] @ ''a'' @ CHR ''#'' # ''b'' @ [DQUOTE]) = [(''K'', DQUOTE # ''a'')]"
  using comment_starts_at_first_hash [of "[]" "[]" "''K='' @ [DQUOTE] @ ''a''" "''b'' @ [DQUOTE]"]
  by (simp add: parse_defs)

text \<open>
  Claim C2 as stated fails: in the line \<^verbatim>\<open>K=a\#b\<close> a backslash precedes the
  \<^verbatim>\<open>#\<close>, and line 16 of \<^verbatim>\<open>src/index.js\<close> cuts there all the same.
\<close>

theorem escaped_hash_starts_comment:
  "hd (split_char (CHR ''#'') (''K=a'' @ [BACKSLASH] @ ''#b'')) = ''K=a'' @ [BACKSLASH] \<and>
   cut_at_unescaped_hash (''K=a'' @ [BACKSLASH] @ ''#b'') = ''K=a'' @ [BACKSLASH] @ ''#b'' \<and>
   parseEnv (''K=a'' @ [BACKSLASH] @ ''#b'') = [(''K'', ''a'' @ [BACKSLASH])]"
  by (simp add: parse_defs)























lemma indexOf_None_iff: "indexOf c s = None \<longleftrightarrow> c \<notin> set s"
  by (induction s) auto

lemma indexOf_Some_mem: "indexOf c s = Some i \<Longrightarrow> c \<in> set s"
  using indexOf_None_iff [of c s] by auto

lemma parse_line_None_iff:
  "parse_line raw = None \<longleftrightarrow> strip_comment raw = [] \<or> CHR ''='' \<notin> set (strip_comment raw)"
  by (auto simp: parse_line_def Let_def indexOf_None_iff dest: indexOf_Some_mem
           split: option.splits)

text \<open>
  Claim C4 fails on the code at the line \<^verbatim>\<open>__proto__=x\<close>: it is not empty and has a
  \<^verbatim>\<open>=\<close>, and the assignment of line 42 creates no entry for it.
\<close>

theorem parseEnv_drops_proto_line:
  "parse_line ''__proto__=x'' = Some (''__proto__'', ''x'') \<and> parseEnv ''__proto__=x'' = []"
  by (simp add: parse_defs)

section \<open>Properties of objects\<close>

lemma dec_snoc: "decimal (k @ [c]) = 10 * decimal k + digit_val c"
  by (simp add: decimal_def)

lemma digit_val_less: "is_digit c \<Longrightarrow> digit_val c < 10"
  by (cases c) (auto simp: is_digit_def digit_val_def less_eq_char_def)

lemma digit_val_inj: "is_digit c \<Longrightarrow> is_digit c' \<Longrightarrow> digit_val c = digit_val c' \<Longrightarrow> c = c'"
proof -
  assume a: "is_digit c" "is_digit c'" "digit_val c = digit_val c'"
  then have "(48::nat) \<le> of_char c" "(48::nat) \<le> of_char c'"
    and "(of_char c :: nat) - 48 = of_char c' - 48"
    by (auto simp: is_digit_def digit_val_def less_eq_char_def)
  then have "(of_char c :: nat) = of_char c'" by arith
  then show ?thesis by simp
qed

lemma digit_val_pos: "is_digit c \<Longrightarrow> c \<noteq> CHR ''0'' \<Longrightarrow> 0 < digit_val c"
proof -
  assume a: "is_digit c" "c \<noteq> CHR ''0''"
  have "(of_char c :: nat) \<noteq> of_char (CHR ''0'')"
    using a(2) by (metis of_char_eq_iff)
  then show ?thesis using a(1)
    by (auto simp: is_digit_def digit_val_def less_eq_char_def)
qed

lemma dec_upper: "list_all is_digit k \<Longrightarrow> decimal k < 10 ^ length k"
proof (induction k rule: rev_induct)
  case Nil
  then show ?case by (simp add: decimal_def)
next
  case (snoc c k)
  then have "decimal k < 10 ^ length k" and "digit_val c < 10"
    by (auto simp: digit_val_less)
  then have "10 * decimal k + digit_val c < 10 * 10 ^ length k" by arith
  then show ?case by (simp add: dec_snoc)
qed

lemma dec_lower:
  "list_all is_digit k \<Longrightarrow> k \<noteq> [] \<Longrightarrow> hd k \<noteq> CHR ''0'' \<Longrightarrow> 10 ^ (length k - 1) \<le> decimal k"
proof (induction k rule: rev_induct)
  case Nil
  then show ?case by simp
next
  case (snoc c k)
  show ?case
  proof (cases "k = []")
    case True
    then show ?thesis using snoc.prems digit_val_pos [of c]
      by (simp add: decimal_def)
  next
    case False
    then have "10 ^ (length k - 1) \<le> decimal k"
      using snoc by auto
    then have "10 * 10 ^ (length k - 1) \<le> 10 * decimal k + digit_val c" by arith
    moreover have "(10::nat) * 10 ^ (length k - 1) = 10 ^ length k"
      using False by (cases k) auto
    ultimately show ?thesis by (simp add: dec_snoc)
  qed
qed

lemma dec_inj_same_length:
  "length k = length k' \<Longrightarrow> list_all is_digit k \<Longrightarrow> list_all is_digit k' \<Longrightarrow>
   decimal k = decimal k' \<Longrightarrow> k = k'"
proof (induction k arbitrary: k' rule: rev_induct)
  case Nil
  then show ?case by simp
next
  case (snoc c k)
  then obtain c' j where k': "k' = j @ [c']"
    by (metis length_0_conv rev_exhaust snoc_eq_iff_butlast)
  with snoc.prems have len: "length k = length j" and dk: "list_all is_digit k" "list_all is_digit j"
    and dc: "is_digit c" "is_digit c'" and eq: "10 * decimal k + digit_val c = 10 * decimal j + digit_val c'"
    by (auto simp: dec_snoc)
  have "digit_val c < 10" "digit_val c' < 10" using dc by (auto simp: digit_val_less)
  with eq have "decimal k = decimal j" and "digit_val c = digit_val c'" by arith+
  then show ?case using snoc.IH [OF len dk] dc k' by (auto dest: digit_val_inj)
qed

lemma array_index_SomeD:
  "array_index k = Some n \<Longrightarrow>
   k \<noteq> [] \<and> list_all is_digit k \<and> (hd k \<noteq> CHR ''0'' \<or> length k = 1) \<and> n = decimal k"
  by (auto simp: array_index_def Let_def split: if_splits)

lemma dec_length_mono:
  assumes "list_all is_digit k" "list_all is_digit k'" "k \<noteq> []"
    and "hd k' \<noteq> CHR ''0'' \<or> length k' = 1" and "length k < length k'"
  shows "decimal k < decimal k'"
proof -
  have "length k' \<noteq> 1" using assms(3,5) by (cases k) auto
  then have "hd k' \<noteq> CHR ''0''" using assms(4) by simp
  moreover have "k' \<noteq> []" using assms(5) by auto
  ultimately have "10 ^ (length k' - 1) \<le> decimal k'" using dec_lower assms(2) by simp
  moreover have "decimal k < 10 ^ length k" using dec_upper assms(1) by simp
  moreover have "(10::nat) ^ length k \<le> 10 ^ (length k' - 1)"
    using assms(5) by (intro power_increasing) auto
  ultimately show ?thesis by linarith
qed

lemma array_index_inj:
  assumes "array_index k = Some n" and "array_index k' = Some n"
  shows "k = k'"
proof -
  note a = array_index_SomeD [OF assms(1)] and b = array_index_SomeD [OF assms(2)]
  have "\<not> length k < length k'"
    using dec_length_mono [of k k'] a b by auto
  moreover have "\<not> length k' < length k"
    using dec_length_mono [of k' k] a b by auto
  ultimately have "length k = length k'" by simp
  then show ?thesis using dec_inj_same_length a b by simp
qed


lemma keys_update_own [simp]: "map fst (update_own k v obj) = map fst obj"
  by (induction obj) (auto simp: update_own_def)

lemma set_keys_update_own [simp]: "fst ` set (update_own k v obj) = fst ` set obj"
  using keys_update_own [of k v obj] by (metis set_map)

lemma map_of_update_own_at:
  "map_of (update_own k v obj) x =
     (if x = k then map_option (\<lambda>_. v) (map_of obj k) else map_of obj x)"
  by (induction obj) (auto simp: update_own_def)

lemma map_of_update_own:
  "has_own obj k \<Longrightarrow> map_of (update_own k v obj) = (map_of obj)(k \<mapsto> v)"
proof -
  assume "has_own obj k"
  then obtain w where "map_of obj k = Some w"
    by (metis has_own_def set_map map_of_eq_None_iff not_None_eq)
  then show ?thesis
    by (simp add: fun_eq_iff map_of_update_own_at)
qed

lemma set_insert_indexed [simp]:
  "set (insert_indexed n k v obj) = insert (k, v) (set obj)"
  by (induction obj) (auto split: option.splits if_splits)

lemma map_of_insert_indexed:
  "k \<notin> fst ` set obj \<Longrightarrow> map_of (insert_indexed n k v obj) = (map_of obj)(k \<mapsto> v)"
  by (induction obj) (auto split: option.splits simp: fun_eq_iff)

lemma map_of_snoc_new:
  assumes "k \<notin> fst ` set obj"
  shows "[k \<mapsto> v] ++ map_of obj = (map_of obj)(k \<mapsto> v)"
proof -
  have "map_of obj k = None" using assms by (simp add: map_of_eq_None_iff)
  then show ?thesis
    by (auto simp: fun_eq_iff map_add_def split: option.splits)
qed

lemma wf_update_own: "wf_obj obj \<Longrightarrow> wf_obj (update_own k v obj)"
  by (simp add: wf_obj_def)

lemma insert_indexed_at_end:
  "\<forall>k' \<in> set (map fst obj). \<exists>m. array_index k' = Some m \<and> m < n \<Longrightarrow>
   insert_indexed n k v obj = obj @ [(k, v)]"
  by (induction obj) (auto split: option.splits)

lemma key_before_index:
  "array_index k = Some n \<Longrightarrow> key_before k' k \<longleftrightarrow> (\<exists>m. array_index k' = Some m \<and> m < n)"
  by (auto simp: key_before_def split: option.splits)

lemma key_before_plain: "array_index k = None \<Longrightarrow> key_before k' k"
  by (simp add: key_before_def)

lemma wf_insert_indexed:
  "wf_obj obj \<Longrightarrow> k \<notin> set (map fst obj) \<Longrightarrow> array_index k = Some n \<Longrightarrow>
   wf_obj (insert_indexed n k v obj)"
proof (induction obj)
  case Nil
  then show ?case by (simp add: wf_obj_def)
next
  case (Cons e obj)
  obtain k' v' where e: "e = (k', v')" by (cases e)
  from Cons.prems have wf: "wf_obj obj" and nk: "k \<notin> set (map fst obj)" and ne: "k \<noteq> k'"
    by (auto simp: wf_obj_def e)
  note IH = Cons.IH [OF wf nk Cons.prems(3)]
  show ?case
  proof (cases "array_index k'")
    case None
    then have "\<forall>y \<in> set (map fst obj). array_index y = None"
      using Cons.prems(1) by (auto simp: wf_obj_def e key_before_def split: option.splits)
    then show ?thesis
      using Cons.prems None by (auto simp: wf_obj_def e key_before_def split: option.splits)
  next
    case (Some m)
    show ?thesis
    proof (cases "m < n")
      case True
      then show ?thesis
        using Cons.prems Some IH
        by (auto simp: wf_obj_def e key_before_def split: option.splits)
    next
      case False
      have "m \<noteq> n" using array_index_inj [OF Some] Cons.prems(3) ne by auto
      with False have "n < m" by simp
      then show ?thesis
        using Cons.prems Some False
        by (fastforce simp: wf_obj_def e key_before_def split: option.splits)
    qed
  qed
qed

lemma wf_define_new:
  "wf_obj obj \<Longrightarrow> k \<notin> set (map fst obj) \<Longrightarrow> wf_obj (define_new k v obj)"
  by (auto simp: define_new_def wf_insert_indexed split: option.splits)
     (auto simp: wf_obj_def sorted_wrt_append key_before_plain)

lemma wf_obj_set: "wf_obj obj \<Longrightarrow> wf_obj (obj_set obj k v)"
  by (simp add: obj_set_def has_own_def wf_define_new wf_update_own)

lemma define_new_last:
  assumes "wf_obj (obj @ [(k, v)])"
  shows "define_new k v obj = obj @ [(k, v)]"
proof (cases "array_index k")
  case None
  then show ?thesis by (simp add: define_new_def)
next
  case (Some n)
  from assms have "\<forall>k' \<in> set (map fst obj). key_before k' k"
    by (auto simp: wf_obj_def sorted_wrt_append)
  then have "\<forall>k' \<in> set (map fst obj). \<exists>m. array_index k' = Some m \<and> m < n"
    using key_before_index [OF Some] by blast
  then show ?thesis using Some by (simp add: define_new_def insert_indexed_at_end)
qed

lemma wf_obj_butlast: "wf_obj (obj @ e) \<Longrightarrow> wf_obj obj"
  by (auto simp: wf_obj_def sorted_wrt_append)

lemma map_of_obj_set:
  "k \<noteq> ''__proto__'' \<or> has_own obj k \<Longrightarrow> map_of (obj_set obj k v) = (map_of obj)(k \<mapsto> v)"
  by (auto simp: obj_set_def map_of_update_own define_new_def map_of_insert_indexed has_own_def
           map_of_snoc_new split: option.splits)

lemma keys_obj_delete [simp]: "map fst (obj_delete obj k) = filter (\<lambda>k'. k' \<noteq> k) (map fst obj)"
  by (induction obj) (auto simp: obj_delete_def)

lemma wf_obj_filter: "wf_obj obj \<Longrightarrow> wf_obj (filter P obj)"
  by (auto simp: wf_obj_def distinct_map_filter sorted_wrt_map sorted_wrt_filter)

section \<open>Properties of the filters\<close>

lemma foldl_obj_delete: "foldl obj_delete obj ks = filter (\<lambda>(k, v). k \<notin> set ks) obj"
proof (induction ks arbitrary: obj)
  case Nil
  then show ?case by simp
next
  case (Cons k ks)
  have "filter (\<lambda>(k', v). k' \<notin> set ks) (obj_delete obj k) = filter (\<lambda>(k', v). k' \<notin> set (k # ks)) obj"
    by (induction obj) (auto simp: obj_delete_def)
  then show ?case using Cons by simp
qed

lemma applyExclude_filter: "applyExclude obj ex = filter (\<lambda>(k, v). \<not> (non_empty ex \<and> k \<in> set (the ex))) obj"
  by (simp add: applyExclude_def spread_def foldl_obj_delete)

lemma rebuild_filter:
  "wf_obj env \<Longrightarrow>
   foldl (\<lambda>filtered (key, val). if Q key then obj_set filtered key val else filtered) [] env =
   filter (\<lambda>(k, v). Q k \<and> k \<noteq> ''__proto__'') env"
proof (induction env rule: rev_induct)
  case Nil
  then show ?case by simp
next
  case (snoc e env)
  obtain k v where e: "e = (k, v)" by (cases e)
  let ?F = "filter (\<lambda>(k, v). Q k \<and> k \<noteq> ''__proto__'')"
  have IH: "foldl (\<lambda>filtered (key, val). if Q key then obj_set filtered key val else filtered) [] env = ?F env"
    using snoc wf_obj_butlast by blast
  have nk: "\<not> has_own (?F env) k"
    using snoc.prems by (auto simp: wf_obj_def has_own_def e)
  show ?case
  proof (cases "Q k \<and> k \<noteq> ''__proto__''")
    case True
    have "wf_obj (?F (env @ [e]))" using snoc.prems by (rule wf_obj_filter)
    then have "wf_obj (?F env @ [(k, v)])" using True by (simp add: e)
    then have "define_new k v (?F env) = ?F env @ [(k, v)]" by (rule define_new_last)
    then show ?thesis using True nk IH by (simp add: e obj_set_def)
  next
    case False
    then show ?thesis using nk IH by (auto simp: e obj_set_def)
  qed
qed

lemma applyPrefix_filter:
  "wf_obj env \<Longrightarrow>
   applyPrefix env p = filter (\<lambda>(k, v). truthy p \<longrightarrow> startsWith k (the p) \<and> k \<noteq> ''__proto__'') env"
  by (simp add: applyPrefix_def rebuild_filter)

lemma set_first_occurrences [simp]: "set (first_occurrences xs) = set xs"
  by (induction xs) auto

lemma plain_keys_insert_indexed:
  "array_index k = Some n \<Longrightarrow>
   filter plain_key (map fst (insert_indexed n k v obj)) = filter plain_key (map fst obj)"
  by (induction obj) (auto simp: plain_key_def split: option.splits)

lemma keys_obj_set:
  "fst ` set (obj_set obj k v) =
     (if k = ''__proto__'' \<and> \<not> has_own obj k then fst ` set obj else insert k (fst ` set obj))"
  by (auto simp: obj_set_def has_own_def define_new_def split: option.splits)

lemma map_of_obj_set_at:
  "k \<noteq> ''__proto__'' \<Longrightarrow>
   map_of (obj_set obj key v) k = (if k = key then Some v else map_of obj k)"
  by (cases "key = ''__proto__'' \<and> \<not> has_own obj key")
     (auto simp: map_of_obj_set, simp add: obj_set_def)

lemma plain_keys_obj_set:
  "filter plain_key (map fst (obj_set obj k v)) =
     filter plain_key (map fst obj) @
       (if plain_key k \<and> \<not> has_own obj k \<and> k \<noteq> ''__proto__'' then [k] else [])"
  by (auto simp: obj_set_def has_own_def define_new_def plain_keys_insert_indexed plain_key_def
           split: option.splits)

lemma has_own_map_of: "has_own obj k \<longleftrightarrow> map_of obj k \<noteq> None"
  by (simp add: has_own_def map_of_eq_None_iff)

lemma loop_Cons:
  assumes "applyWhitelist_loop env (key # keys) acc = Inr r"
  shows "applyWhitelist_loop env keys
           (case map_of env key of None \<Rightarrow> acc | Some v \<Rightarrow> obj_set acc key v) = Inr r"
  using assms
  by (auto simp: call_hasOwnProperty_def obj_get_def has_own_map_of
           split: if_splits option.splits)

lemma loop_wf:
  "applyWhitelist_loop env ks acc = Inr r \<Longrightarrow> wf_obj acc \<Longrightarrow> wf_obj r"
proof (induction ks arbitrary: acc)
  case Nil
  then show ?case by simp
next
  case (Cons key ks)
  show ?case
    by (rule Cons.IH [OF loop_Cons [OF Cons.prems(1)]])
       (auto simp: Cons.prems(2) wf_obj_set split: option.splits)
qed

lemma loop_map_of:
  "applyWhitelist_loop env ks acc = Inr r \<Longrightarrow> k \<noteq> ''__proto__'' \<Longrightarrow>
   map_of r k = (if k \<in> set ks \<and> has_own env k then map_of env k else map_of acc k)"
proof (induction ks arbitrary: acc)
  case Nil
  then show ?case by simp
next
  case (Cons key ks)
  let ?acc = "case map_of env key of None \<Rightarrow> acc | Some v \<Rightarrow> obj_set acc key v"
  have step: "map_of ?acc k = (if k = key \<and> has_own env k then map_of env k else map_of acc k)"
  proof (cases "map_of env key")
    case None
    then show ?thesis by (auto simp: has_own_map_of)
  next
    case (Some v)
    then show ?thesis using Cons.prems(2) by (auto simp: has_own_map_of map_of_obj_set_at)
  qed
  show ?case
    using Cons.IH [OF loop_Cons [OF Cons.prems(1)] Cons.prems(2)] step by auto
qed

lemma loop_step_keys:
  "fst ` set (case map_of env key of None \<Rightarrow> acc | Some v \<Rightarrow> obj_set acc key v) =
      (if has_own env key \<and> \<not> (key = ''__proto__'' \<and> \<not> has_own acc key)
       then insert key (fst ` set acc) else fst ` set acc)"
proof (cases "map_of env key")
  case None
  then show ?thesis by (simp add: has_own_map_of)
next
  case (Some v)
  then have "has_own env key" by (simp add: has_own_map_of)
  then show ?thesis using Some by (auto simp: keys_obj_set)
qed

lemma loop_step_plain:
  "filter plain_key (map fst (case map_of env key of None \<Rightarrow> acc | Some v \<Rightarrow> obj_set acc key v)) =
      filter plain_key (map fst acc) @
        (if plain_key key \<and> has_own env key \<and> key \<noteq> ''__proto__'' \<and> key \<notin> fst ` set acc
         then [key] else [])"
proof (cases "map_of env key")
  case None
  then show ?thesis by (simp add: has_own_map_of)
next
  case (Some v)
  then have "has_own env key" by (simp add: has_own_map_of)
  then show ?thesis using Some by (auto simp: plain_keys_obj_set has_own_def)
qed

lemma loop_keys:
  "applyWhitelist_loop env ks acc = Inr r \<Longrightarrow>
   fst ` set r = fst ` set acc \<union> {k \<in> set ks. has_own env k \<and> k \<noteq> ''__proto__''}"
proof (induction ks arbitrary: acc)
  case Nil
  then show ?case by simp
next
  case (Cons key ks)
  show ?case
    unfolding Cons.IH [OF loop_Cons [OF Cons.prems(1)]] loop_step_keys
    by (auto simp: has_own_def intro: rev_image_eqI)
qed

lemma filter_not_in_insert:
  "filter (\<lambda>k. k \<notin> insert x A) xs = filter (\<lambda>k. k \<notin> A) (filter (\<lambda>y. y \<noteq> x) xs)"
  by (induction xs) auto

lemma filter_not_in_absent:
  "x \<notin> set xs \<Longrightarrow> filter (\<lambda>k. k \<notin> insert x A) xs = filter (\<lambda>k. k \<notin> A) xs"
  by (induction xs) auto

lemma filter_not_in_member:
  "x \<in> A \<Longrightarrow> filter (\<lambda>k. k \<noteq> x \<and> k \<notin> A) xs = filter (\<lambda>k. k \<notin> A) xs"
  by (induction xs) auto

lemma loop_plain_keys:
  "applyWhitelist_loop env ks acc = Inr r \<Longrightarrow>
   filter plain_key (map fst r) =
     filter plain_key (map fst acc) @
     filter (\<lambda>k. k \<notin> set (map fst acc))
       (first_occurrences
          (filter (\<lambda>k. plain_key k \<and> has_own env k \<and> k \<noteq> ''__proto__'') ks))"
proof (induction ks arbitrary: acc)
  case Nil
  then show ?case by simp
next
  case (Cons key ks)
  let ?P = "\<lambda>k. plain_key k \<and> has_own env k \<and> k \<noteq> ''__proto__''"
  let ?acc = "case map_of env key of None \<Rightarrow> acc | Some v \<Rightarrow> obj_set acc key v"
  let ?A = "set (map fst acc)"
  let ?fo = "first_occurrences (filter ?P ks)"
  note IH = Cons.IH [OF loop_Cons [OF Cons.prems(1)]]
  have keys: "set (map fst ?acc) =
      (if has_own env key \<and> \<not> (key = ''__proto__'' \<and> \<not> has_own acc key)
       then insert key ?A else ?A)"
    using loop_step_keys [where env = env and key = key and acc = acc] by auto
  have plain: "filter plain_key (map fst ?acc) =
      filter plain_key (map fst acc) @ (if ?P key \<and> key \<notin> ?A then [key] else [])"
    using loop_step_plain [where env = env and key = key and acc = acc] by auto
  consider (new) "?P key" "key \<notin> ?A" | (old) "key \<in> ?A"
    | (index) "\<not> plain_key key" "key \<notin> ?A" | (skip) "plain_key key" "\<not> ?P key" "key \<notin> ?A"
    by blast
  then show ?case
  proof cases
    case new
    then have "set (map fst ?acc) = insert key ?A" using keys by auto
    then show ?thesis using IH plain new
      by (simp add: filter_not_in_insert)
  next
    case old
    then have "set (map fst ?acc) = ?A" using keys by auto
    then show ?thesis using IH plain old
      by (simp add: filter_not_in_member)
  next
    case index
    then have "key \<notin> set ?fo" by auto
    then have "filter (\<lambda>k. k \<notin> set (map fst ?acc)) ?fo = filter (\<lambda>k. k \<notin> ?A) ?fo"
      using keys filter_not_in_absent [of key ?fo ?A] by (auto split: if_splits)
    then show ?thesis using IH plain index by simp
  next
    case skip
    then have "set (map fst ?acc) = ?A" using keys by (auto simp: has_own_def)
    then show ?thesis using IH plain skip by simp
  qed
qed

lemma filter_first_occurrences:
  "filter Q (first_occurrences xs) = first_occurrences (filter Q xs)"
proof (induction xs)
  case Nil
  then show ?case by simp
next
  case (Cons x xs)
  have "\<not> Q x \<Longrightarrow> filter (\<lambda>y. Q y \<and> y \<noteq> x) (first_occurrences xs) = filter Q (first_occurrences xs)"
    by (rule filter_cong) auto
  then show ?case using Cons [symmetric] by (auto simp: conj_commute)
qed

lemma keys_filter: "map fst (filter (\<lambda>(k, v). R k) obj) = filter R (map fst obj)"
  by (induction obj) auto

lemma applyFilters_whitelist:
  "non_empty (whitelist options) \<Longrightarrow>
   applyFilters env options =
     (case applyWhitelist env (whitelist options) of
        Inl e \<Rightarrow> Inl e
      | Inr w \<Rightarrow> Inr (applyExclude w (exclude options)))"
  by (simp add: applyFilters_def applyExclude_def split: sum.splits)

lemma applyFilters_no_whitelist:
  "\<not> non_empty (whitelist options) \<Longrightarrow>
   applyFilters env options =
     Inr (applyExclude (applyPrefix env (prefix options)) (exclude options))"
  by (simp add: applyFilters_def applyExclude_def applyPrefix_def)

lemma applyFilters_result:
  assumes "applyFilters env options = Inr result"
  shows "\<exists>w. result = filter (\<lambda>(k, v). \<not> excluded options k) w \<and>
           (if non_empty (whitelist options)
            then applyWhitelist_loop env (the (whitelist options)) [] = Inr w
            else w = applyPrefix env (prefix options))"
proof (cases "non_empty (whitelist options)")
  case True
  then show ?thesis
    using assms
    by (auto simp: applyFilters_whitelist applyWhitelist_def applyExclude_filter excluded_def
             split: sum.splits)
next
  case False
  then show ?thesis
    using assms
    by (auto simp: applyFilters_no_whitelist applyExclude_filter excluded_def)
qed

lemma map_of_filter_keys:
  "map_of (filter (\<lambda>(k, v). R k) obj) k = (if R k then map_of obj k else None)"
  by (induction obj) auto


lemmas filter_defs =
  applyFilters_def applyWhitelist_def applyExclude_def applyPrefix_def non_empty_def truthy_def
  call_hasOwnProperty_def obj_get_def obj_delete_def spread_def wf_obj_def key_before_def
  plain_key_def excluded_def whitelist_order_def

lemma loop_throws:
  "has_own env ''hasOwnProperty'' \<Longrightarrow> ks \<noteq> [] \<Longrightarrow>
   applyWhitelist_loop env ks acc = Inl (TypeError ''env.hasOwnProperty is not a function'')"
  by (cases ks) (simp_all add: call_hasOwnProperty_def)

lemma loop_returns:
  "\<not> has_own env ''hasOwnProperty'' \<Longrightarrow> \<exists>r. applyWhitelist_loop env ks acc = Inr r"
  by (induction ks arbitrary: acc) (simp_all add: call_hasOwnProperty_def)

text \<open>
  The composition of the three steps in \<^verbatim>\<open>applyFilters\<close>. With a non-empty whitelist
  the call throws exactly on a mapping that has an own key \<^verbatim>\<open>hasOwnProperty\<close>;
  otherwise it returns the whitelist step on the original mapping followed by the
  exclude step, so the prefix has no effect and the result maps a key to the value of
  \<open>env\<close> when the key is in the whitelist and not excluded. Without a whitelist the
  call returns the entries of the mapping whose key starts with the prefix (all entries
  when there is no prefix), in their order, less the excluded keys. An excluded key is
  never in the result. And \<^verbatim>\<open>applyFilters({A:1,B:2},{prefix:"A", whitelist:["B"]})\<close>
  is \<^verbatim>\<open>{B:2}\<close>.
\<close>

lemma applyFilters_composition:
  "(non_empty (whitelist options) \<longrightarrow>
      applyFilters env options =
        (case applyWhitelist env (whitelist options) of
           Inl e \<Rightarrow> Inl e
         | Inr w \<Rightarrow> Inr (applyExclude w (exclude options)))) \<and>
   (non_empty (whitelist options) \<longrightarrow>
      applyFilters env (options\<lparr>prefix := p\<rparr>) = applyFilters env options) \<and>
   (non_empty (whitelist options) \<and> has_own env ''hasOwnProperty'' \<longrightarrow>
      applyFilters env options = Inl (TypeError ''env.hasOwnProperty is not a function'')) \<and>
   (\<not> (non_empty (whitelist options) \<and> has_own env ''hasOwnProperty'') \<longrightarrow>
      (\<exists>r. applyFilters env options = Inr r)) \<and>
   (\<not> non_empty (whitelist options) \<longrightarrow>
      applyFilters env options =
        Inr (applyExclude (applyPrefix env (prefix options)) (exclude options))) \<and>
   (wf_obj env \<and> \<not> non_empty (whitelist options) \<longrightarrow>
      applyFilters env options =
        Inr (filter (\<lambda>(k, v). (truthy (prefix options) \<longrightarrow>
                                  startsWith k (the (prefix options)) \<and> k \<noteq> ''__proto__'') \<and>
                               \<not> excluded options k) env)) \<and>
   (applyFilters env options = Inr result \<and> excluded options k \<longrightarrow> \<not> has_own result k) \<and>
   (non_empty (whitelist options) \<and> applyFilters env options = Inr result \<and>
    k \<noteq> ''__proto__'' \<longrightarrow>
      map_of result k =
        (if k \<in> set (the (whitelist options)) \<and> \<not> excluded options k then map_of env k
         else None)) \<and>
   applyFilters [(''A'', ''1''), (''B'', ''2'')]
     \<lparr>whitelist = Some [''B''], exclude = None, prefix = Some ''A''\<rparr> = Inr [(''B'', ''2'')]"
proof (intro conjI impI)
  assume "non_empty (whitelist options)"
  then show "applyFilters env options =
        (case applyWhitelist env (whitelist options) of
           Inl e \<Rightarrow> Inl e
         | Inr w \<Rightarrow> Inr (applyExclude w (exclude options)))"
    by (rule applyFilters_whitelist)
next
  assume "non_empty (whitelist options)"
  then show "applyFilters env (options\<lparr>prefix := p\<rparr>) = applyFilters env options"
    by (simp add: applyFilters_whitelist split: sum.splits)
next
  assume "non_empty (whitelist options) \<and> has_own env ''hasOwnProperty''"
  then show "applyFilters env options = Inl (TypeError ''env.hasOwnProperty is not a function'')"
    using loop_throws [of env "the (whitelist options)" "[]"]
    by (auto simp: applyFilters_whitelist applyWhitelist_def non_empty_def split: option.splits)
next
  assume a: "\<not> (non_empty (whitelist options) \<and> has_own env ''hasOwnProperty'')"
  show "\<exists>r. applyFilters env options = Inr r"
  proof (cases "non_empty (whitelist options)")
    case True
    then obtain r where "applyWhitelist_loop env (the (whitelist options)) [] = Inr r"
      using a loop_returns by blast
    then show ?thesis using True by (simp add: applyFilters_whitelist applyWhitelist_def)
  next
    case False
    then show ?thesis by (simp add: applyFilters_no_whitelist)
  qed
next
  assume "\<not> non_empty (whitelist options)"
  then show "applyFilters env options =
        Inr (applyExclude (applyPrefix env (prefix options)) (exclude options))"
    by (rule applyFilters_no_whitelist)
next
  assume a: "wf_obj env \<and> \<not> non_empty (whitelist options)"
  then have "applyFilters env options =
      Inr (filter (\<lambda>(k, v). \<not> excluded options k) (applyPrefix env (prefix options)))"
    by (simp add: applyFilters_no_whitelist applyExclude_filter excluded_def)
  then show "applyFilters env options =
        Inr (filter (\<lambda>(k, v). (truthy (prefix options) \<longrightarrow>
                                  startsWith k (the (prefix options)) \<and> k \<noteq> ''__proto__'') \<and>
                               \<not> excluded options k) env)"
    using a by (simp add: applyPrefix_filter case_prod_unfold conj_commute)
next
  assume "applyFilters env options = Inr result \<and> excluded options k"
  then show "\<not> has_own result k"
    using applyFilters_result [of env options result] by (auto simp: has_own_def)
next
  assume a: "non_empty (whitelist options) \<and> applyFilters env options = Inr result \<and>
    k \<noteq> ''__proto__''"
  then obtain w where w: "result = filter (\<lambda>(k, v). \<not> excluded options k) w"
      "applyWhitelist_loop env (the (whitelist options)) [] = Inr w"
    using applyFilters_result [of env options result] by auto
  have "map_of w k = (if k \<in> set (the (whitelist options)) \<and> has_own env k then map_of env k else None)"
    using loop_map_of [OF w(2)] a by simp
  then show "map_of result k =
        (if k \<in> set (the (whitelist options)) \<and> \<not> excluded options k then map_of env k
         else None)"
    by (auto simp: w(1) map_of_filter_keys has_own_map_of)
next
  show "applyFilters [(''A'', ''1''), (''B'', ''2'')]
     \<lparr>whitelist = Some [''B''], exclude = None, prefix = Some ''A''\<rparr> = Inr [(''B'', ''2'')]"
    by (simp add: filter_defs parse_defs)
qed

text \<open>
  The composition at \<^verbatim>\<open>{A:1,B:2}\<close>: the whitelist of both keys and the exclusion of
  \<^verbatim>\<open>B\<close> leave \<^verbatim>\<open>{A:1}\<close>, whatever the prefix; the prefix \<^verbatim>\<open>A\<close> alone leaves
  \<^verbatim>\<open>{A:1}\<close> too.
\<close>

lemma applyFilters_composition_example:
  "applyFilters [(''A'', ''1''), (''B'', ''2'')]
     \<lparr>whitelist = Some [''A'', ''B''], exclude = Some [''B''], prefix = Some ''B''\<rparr> =
     Inr [(''A'', ''1'')] \<and>
   applyFilters [(''A'', ''1''), (''B'', ''2'')]
     \<lparr>whitelist = None, exclude = None, prefix = Some ''A''\<rparr> = Inr [(''A'', ''1'')]"
  by (simp add: filter_defs parse_defs)

text \<open>
  Claim C1 fails on the code at a mapping that \<^verbatim>\<open>parseEnv\<close> builds from a file with
  the line \<^verbatim>\<open>hasOwnProperty=1\<close>, with the options of the claim's own example. The
  whitelist step, recomputed from the original mapping, is due to return \<^verbatim>\<open>{B:2}\<close>,
  for the mapping has the key \<^verbatim>\<open>B\<close>. But line 14 of \<^verbatim>\<open>src/filters.js\<close> calls
  \<^verbatim>\<open>env.hasOwnProperty(key)\<close>, which on this mapping is the string \<^verbatim>\<open>1\<close> and no
  function: \<^verbatim>\<open>applyFilters\<close> throws a \<^verbatim>\<open>TypeError\<close> and returns no mapping at
  all. The prefix step and the exclude step call no method of the mapping, and they
  filter the same mapping as they do any other.
\<close>

theorem applyFilters_throws_on_hasOwnProperty:
  "parseEnv (''hasOwnProperty=1'' @ [LF] @ ''A=1'' @ [LF] @ ''B=2'') =
     [(''hasOwnProperty'', ''1''), (''A'', ''1''), (''B'', ''2'')] \<and>
   map_of [(''hasOwnProperty'', ''1''), (''A'', ''1''), (''B'', ''2'')] ''B'' = Some ''2'' \<and>
   applyFilters [(''hasOwnProperty'', ''1''), (''A'', ''1''), (''B'', ''2'')]
     \<lparr>whitelist = Some [''B''], exclude = None, prefix = Some ''A''\<rparr> =
     Inl (TypeError ''env.hasOwnProperty is not a function'') \<and>
   applyFilters [(''hasOwnProperty'', ''1''), (''A'', ''1''), (''B'', ''2'')]
     \<lparr>whitelist = None, exclude = Some [''B''], prefix = Some ''A''\<rparr> = Inr [(''A'', ''1'')]"
  by (simp add: filter_defs parse_defs)

text \<open>
  Claim C10, as the code has it: for a mapping and a non-empty whitelist, the result of
  \<^verbatim>\<open>applyFilters\<close> has the keys of the whitelist that the mapping has, without
  \<^verbatim>\<open>__proto__\<close> and the excluded keys; it lists the keys that are array indices
  first, in ascending numeric order, and then the other keys in the order in which the
  whitelist names them for the first time. For every other filter combination the result
  is the list of the surviving entries of the mapping, in their original order.
\<close>

theorem applyFilters_key_order:
  "wf_obj env \<and> applyFilters env options = Inr result \<longrightarrow>
     (non_empty (whitelist options) \<longrightarrow>
        wf_obj result \<and>
        fst ` set result =
          {k \<in> set (the (whitelist options)).
             has_own env k \<and> k \<noteq> ''__proto__'' \<and> \<not> excluded options k} \<and>
        filter plain_key (map fst result) =
          first_occurrences
            (filter (\<lambda>k. plain_key k \<and> has_own env k \<and> k \<noteq> ''__proto__'' \<and>
                          \<not> excluded options k)
               (the (whitelist options)))) \<and>
     (\<not> non_empty (whitelist options) \<longrightarrow>
        result =
          filter (\<lambda>(k, v). (truthy (prefix options) \<longrightarrow>
                               startsWith k (the (prefix options)) \<and> k \<noteq> ''__proto__'') \<and>
                            \<not> excluded options k) env)"
proof (intro impI conjI; elim conjE)
  assume wf: "wf_obj env" and r: "applyFilters env options = Inr result"
    and wl: "non_empty (whitelist options)"
  then obtain w where w: "result = filter (\<lambda>(k, v). \<not> excluded options k) w"
      "applyWhitelist_loop env (the (whitelist options)) [] = Inr w"
    using applyFilters_result [of env options result] by auto
  have "wf_obj w" using loop_wf [OF w(2)] by (simp add: wf_obj_def)
  then show "wf_obj result" unfolding w(1) by (rule wf_obj_filter)
  show "fst ` set result =
          {k \<in> set (the (whitelist options)).
             has_own env k \<and> k \<noteq> ''__proto__'' \<and> \<not> excluded options k}"
  proof -
    have "set (map fst result) = set (filter (\<lambda>k. \<not> excluded options k) (map fst w))"
      by (simp only: w(1) keys_filter)
    then have "fst ` set result = {k \<in> fst ` set w. \<not> excluded options k}"
      by auto
    then show ?thesis using loop_keys [OF w(2)] by auto
  qed
  have "filter plain_key (map fst result) =
     filter (\<lambda>k. \<not> excluded options k) (filter plain_key (map fst w))"
    by (simp add: w(1) keys_filter conj_commute)
  also have "\<dots> = filter (\<lambda>k. \<not> excluded options k)
       (first_occurrences (filter (\<lambda>k. plain_key k \<and> has_own env k \<and> k \<noteq> ''__proto__'')
          (the (whitelist options))))"
    using loop_plain_keys [OF w(2)] by simp
  also have "\<dots> = first_occurrences
            (filter (\<lambda>k. plain_key k \<and> has_own env k \<and> k \<noteq> ''__proto__'' \<and>
                          \<not> excluded options k)
               (the (whitelist options)))"
    by (simp add: filter_first_occurrences conj_commute conj_left_commute)
  finally show "filter plain_key (map fst result) =
          first_occurrences
            (filter (\<lambda>k. plain_key k \<and> has_own env k \<and> k \<noteq> ''__proto__'' \<and>
                          \<not> excluded options k)
               (the (whitelist options)))" .
next
  assume wf: "wf_obj env" and r: "applyFilters env options = Inr result"
    and wl: "\<not> non_empty (whitelist options)"
  then have "result = filter (\<lambda>(k, v). \<not> excluded options k) (applyPrefix env (prefix options))"
    using applyFilters_result [of env options result] by auto
  then show "result =
          filter (\<lambda>(k, v). (truthy (prefix options) \<longrightarrow>
                               startsWith k (the (prefix options)) \<and> k \<noteq> ''__proto__'') \<and>
                            \<not> excluded options k) env"
    by (simp add: applyPrefix_filter [OF wf] case_prod_unfold conj_commute)
qed

theorem applyFilters_key_order_witness:
  "wf_obj [(''1'', ''a''), (''2'', ''b''), (''X'', ''c''), (''Y'', ''d'')] \<and>
   applyFilters [(''1'', ''a''), (''2'', ''b''), (''X'', ''c''), (''Y'', ''d'')]
     \<lparr>whitelist = Some [''Y'', ''2'', ''X'', ''1'', ''Y'', ''Z''], exclude = None, prefix = None\<rparr> =
     Inr [(''1'', ''a''), (''2'', ''b''), (''Y'', ''d''), (''X'', ''c'')] \<and>
   filter plain_key (map fst [(''1'', ''a''), (''2'', ''b''), (''Y'', ''d''), (''X'', ''c'')]) =
     [''Y'', ''X''] \<and>
   applyFilters [(''1'', ''a''), (''2'', ''b''), (''X'', ''c''), (''Y'', ''d'')]
     \<lparr>whitelist = None, exclude = Some [''2''], prefix = None\<rparr> =
     Inr [(''1'', ''a''), (''X'', ''c''), (''Y'', ''d'')]"
  using applyFilters_key_order [where env = "[(''1'', ''a''), (''2'', ''b''), (''X'', ''c''), (''Y'', ''d'')]"
      and options = "\<lparr>whitelist = Some [''Y'', ''2'', ''X'', ''1'', ''Y'', ''Z''], exclude = None, prefix = None\<rparr>"
      and result = "[(''1'', ''a''), (''2'', ''b''), (''Y'', ''d''), (''X'', ''c'')]"]
    applyFilters_key_order [where env = "[(''1'', ''a''), (''2'', ''b''), (''X'', ''c''), (''Y'', ''d'')]"
      and options = "\<lparr>whitelist = None, exclude = Some [''2''], prefix = None\<rparr>"
      and result = "[(''1'', ''a''), (''X'', ''c''), (''Y'', ''d'')]"]
  by (simp add: filter_defs parse_defs)

text \<open>
  Claim C10 as stated fails: the whitelist names \<^verbatim>\<open>2\<close> before \<^verbatim>\<open>1\<close>, and the
  result lists \<^verbatim>\<open>1\<close> before \<^verbatim>\<open>2\<close>.
\<close>

theorem whitelist_order_not_kept:
  "applyFilters [(''1'', ''a''), (''2'', ''b'')]
     \<lparr>whitelist = Some [''2'', ''1''], exclude = None, prefix = None\<rparr> =
     Inr [(''1'', ''a''), (''2'', ''b'')] \<and>
   whitelist_order [(''1'', ''a''), (''2'', ''b'')] [''2'', ''1''] = [''2'', ''1'']"
  by (simp add: filter_defs parse_defs)

text \<open>
  Every other line with a \<^verbatim>\<open>=\<close> does produce its entry, and a line without one, or
  empty after the removal of the comment, produces none (\<open>parse_line_None_iff\<close>).
\<close>

lemma parse_step_entry:
  "parse_line raw = Some (k, v) \<Longrightarrow> k \<noteq> ''__proto__'' \<Longrightarrow>
   map_of (parse_step env raw) k = Some v"
  by (simp add: parse_step_def map_of_obj_set)

lemma parse_step_no_entry: "parse_line raw = None \<Longrightarrow> parse_step env raw = env"
  by (simp add: parse_step_def)

lemma parse_line_empty_value: "parse_line ''KEY='' = Some (''KEY'', [])"
  by (simp add: parse_defs)

section \<open>Properties of the redaction\<close>

lemma split_char_absent: "d \<notin> set t \<Longrightarrow> split_char d t = [t]"
  by (induction t) auto

lemma split_char_append:
  "d \<notin> set t \<Longrightarrow> split_char d (t @ d # rest) = t # split_char d rest"
  by (induction t) auto

lemma split_join:
  "ts \<noteq> [] \<Longrightarrow> \<forall>t \<in> set ts. d \<notin> set t \<Longrightarrow> split_char d (join [d] ts) = ts"
  by (induction "[d]" ts rule: join.induct) (auto simp: split_char_absent split_char_append)

lemma literal_externals_ok: "literal_alternation literal_externals"
proof -
  have "split_char (CHR ''|'') (join ''|'' ts) = ts"
    if "ts \<noteq> []" and "\<forall>t \<in> set ts. \<forall>c \<in> set t. \<not> syntax_char c" for ts
  proof -
    have "\<forall>t \<in> set ts. CHR ''|'' \<notin> set t"
      using that(2) by (auto simp: syntax_char_def)
    then show ?thesis using that(1) by (rule split_join [rotated])
  qed
  then show ?thesis
    by (simp add: literal_alternation_def literal_externals_def)
qed

lemma update_own_absent: "k \<notin> fst ` set obj \<Longrightarrow> update_own k v obj = obj"
  by (induction obj) (auto simp: update_own_def)

lemma update_own_middle:
  "k \<notin> fst ` set pre \<Longrightarrow> k \<notin> fst ` set post \<Longrightarrow>
   update_own k v (pre @ (k, u) # post) = pre @ (k, v) # post"
  using update_own_absent [of k pre v] update_own_absent [of k post v]
  by (simp add: update_own_def)

lemma mask_loop:
  "distinct (map fst (pre @ todo)) \<Longrightarrow>
   foldl (\<lambda>masked (key, val). if P key val then obj_set masked key R else masked)
     (pre @ todo) todo =
   pre @ map (\<lambda>e. if P (fst e) (snd e) then (fst e, R) else e) todo"
proof (induction todo arbitrary: pre)
  case Nil
  then show ?case by simp
next
  case (Cons e todo)
  obtain k v where e: "e = (k, v)" by (cases e)
  let ?e' = "if P k v then (k, R) else (k, v)"
  from Cons.prems have nk: "k \<notin> fst ` set pre" "k \<notin> fst ` set todo"
    by (auto simp: e)
  have own: "has_own (pre @ (k, v) # todo) k" by (simp add: has_own_def)
  have step: "(if P k v then obj_set (pre @ (k, v) # todo) k R else pre @ (k, v) # todo) =
      (pre @ [?e']) @ todo"
    using own nk by (simp add: obj_set_def update_own_middle)
  have "distinct (map fst ((pre @ [?e']) @ todo))" using Cons.prems by (auto simp: e)
  from Cons.IH [OF this] show ?case
    by (simp add: e step del: append_assoc)
qed

lemma maskSecrets_literal:
  assumes "literal_alternation ext" and "distinct (map fst obj)" and "redactKeys \<noteq> []"
    and "\<forall>t \<in> set redactKeys. \<forall>c \<in> set t. \<not> syntax_char c"
  shows "maskSecrets ext obj redactKeys = Inr (redact_by_terms redactKeys obj)"
proof -
  obtain test where t: "regexp ext (join ''|'' redactKeys) = Inr test"
      "\<And>s. test s \<longleftrightarrow> (\<exists>t \<in> set redactKeys. includes_ci s t)"
    using assms(1,3,4) unfolding literal_alternation_def by blast
  have "foldl (\<lambda>masked (key, val). if test key \<or> test val then obj_set masked key REDACTED else masked)
     ([] @ obj) obj = [] @ map (\<lambda>e. if test (fst e) \<or> test (snd e) then (fst e, REDACTED) else e) obj"
    using assms(2) by (intro mask_loop) simp
  moreover have "(test (fst e) \<or> test (snd e)) = term_occurs redactKeys e" for e
    by (auto simp: t(2) term_occurs_def)
  ultimately show ?thesis
    using assms(3) t(1) by (simp add: maskSecrets_def spread_def redact_by_terms_def)
qed

lemma maskSecrets_keys:
  assumes "distinct (map fst obj)" and "maskSecrets ext obj redactKeys = Inr r"
  shows "map fst r = map fst obj"
proof (cases "redactKeys = []")
  case True
  then show ?thesis using assms(2) by (simp add: maskSecrets_def)
next
  case False
  then obtain test where t: "regexp ext (join ''|'' redactKeys) = Inr test"
    using assms(2) by (auto simp: maskSecrets_def Let_def split: sum.splits)
  have "foldl (\<lambda>masked (key, val). if test key \<or> test val then obj_set masked key REDACTED else masked)
     ([] @ obj) obj = [] @ map (\<lambda>e. if test (fst e) \<or> test (snd e) then (fst e, REDACTED) else e) obj"
    using assms(1) by (intro mask_loop) simp
  then have "r = map (\<lambda>e. if test (fst e) \<or> test (snd e) then (fst e, REDACTED) else e) obj"
    using assms(2) False t by (simp add: maskSecrets_def spread_def)
  then show ?thesis by (simp add: comp_def if_distrib)
qed

lemmas mask_defs =
  maskSecrets_def literal_externals_def spread_def includes_ci_def canonicalize_def
  redact_by_terms_def term_occurs_def REDACTED_def syntax_char_def lower_case_def upper_case_def

text \<open>
  Claim C5, as the code has it: the terms are joined into a pattern without being
  escaped. When no term has a syntax character of patterns (and the pattern is then the
  alternation of the terms as literals), \<^verbatim>\<open>maskSecrets\<close> with a non-empty term list
  replaces by \<^verbatim>\<open>***REDACTED***\<close> the value of exactly the entries in whose key or
  value a term occurs, case-insensitively; it leaves the other entries and all keys as
  they are. Whatever the terms are, the result has the keys of the mapping, in their
  order. With the empty term list it returns the mapping.
\<close>

theorem maskSecrets_redacts_by_terms:
  "(literal_alternation ext \<and> wf_obj obj \<and> redactKeys \<noteq> [] \<and>
    (\<forall>t \<in> set redactKeys. \<forall>c \<in> set t. \<not> syntax_char c) \<longrightarrow>
      maskSecrets ext obj redactKeys = Inr (redact_by_terms redactKeys obj)) \<and>
   map fst (redact_by_terms redactKeys obj) = map fst obj \<and>
   (wf_obj obj \<and> maskSecrets ext obj redactKeys = Inr result \<longrightarrow>
      map fst result = map fst obj) \<and>
   maskSecrets ext obj [] = Inr obj"
proof (intro conjI impI)
  assume "literal_alternation ext \<and> wf_obj obj \<and> redactKeys \<noteq> [] \<and>
    (\<forall>t \<in> set redactKeys. \<forall>c \<in> set t. \<not> syntax_char c)"
  then show "maskSecrets ext obj redactKeys = Inr (redact_by_terms redactKeys obj)"
    using maskSecrets_literal [of ext obj redactKeys] by (simp add: wf_obj_def)
next
  show "map fst (redact_by_terms redactKeys obj) = map fst obj"
    by (induction obj) (auto simp: redact_by_terms_def)
next
  assume "wf_obj obj \<and> maskSecrets ext obj redactKeys = Inr result"
  then show "map fst result = map fst obj"
    using maskSecrets_keys [of obj ext redactKeys result] by (simp add: wf_obj_def)
next
  show "maskSecrets ext obj [] = Inr obj" by (simp add: maskSecrets_def)
qed

text \<open>The theorem at \<^verbatim>\<open>maskSecrets({DB_PASSWORD:"x", HOST:"h"}, ["password"])\<close>.\<close>

theorem maskSecrets_redacts_by_terms_witness:
  "maskSecrets literal_externals [(''DB_PASSWORD'', ''x''), (''HOST'', ''h'')] [''password''] =
     Inr [(''DB_PASSWORD'', ''***REDACTED***''), (''HOST'', ''h'')] \<and>
   maskSecrets literal_externals [(''DB_PASSWORD'', ''x''), (''HOST'', ''h'')] [] =
     Inr [(''DB_PASSWORD'', ''x''), (''HOST'', ''h'')]"
  using maskSecrets_redacts_by_terms [where ext = literal_externals
      and obj = "[(''DB_PASSWORD'', ''x''), (''HOST'', ''h'')]" and redactKeys = "[''password'']"
      and result = "[(''DB_PASSWORD'', ''***REDACTED***''), (''HOST'', ''h'')]"]
    literal_externals_ok
  by (simp add: mask_defs filter_defs parse_defs)

text \<open>
  Claim C5 as stated fails for a term with a syntax character: the term \<^verbatim>\<open>A|Z\<close>
  occurs neither in the key \<^verbatim>\<open>CAT\<close> nor in the value \<^verbatim>\<open>v\<close>, and the pattern
  \<^verbatim>\<open>/A|Z/i\<close>, an alternation of two letters, matches the key.
\<close>

theorem unescaped_term_is_a_pattern:
  "maskSecrets literal_externals [(''CAT'', ''v'')] [''A|Z''] = Inr [(''CAT'', ''***REDACTED***'')] \<and>
   redact_by_terms [''A|Z''] [(''CAT'', ''v'')] = [(''CAT'', ''v'')]"
  by (simp add: mask_defs obj_set_def has_own_def update_own_def)

section \<open>Properties of \<^verbatim>\<open>convertEnv\<close>\<close>

lemma failure_simps [simp]:
  "success (failure m) = False" "error (failure m) = Some m" "data (failure m) = None"
  "message_of (failure m) = None"
  by (simp_all add: failure_def)

lemma descriptor_failure: "descriptor (failure m)"
  by (simp add: descriptor_def)

lemma descriptor_write_example: "descriptor (fst (write_example w f env))"
  by (simp add: write_example_def Let_def descriptor_def split: sum.splits)

lemma descriptor_deliver: "descriptor (fst (deliver w out s))"
  by (simp add: deliver_def descriptor_def split: sum.splits)

lemma descriptor_resolve_file: "resolve_file w f = Inl r \<Longrightarrow> descriptor r"
  by (auto simp: resolve_file_def descriptor_failure Let_def split: if_splits)


text \<open>
  Claim C8: every result of \<^verbatim>\<open>convertEnv\<close> satisfies the invariant of the descriptor:
  a failure has an error and neither data nor message, a success has data or a message.
\<close>

theorem convertEnv_descriptor: "descriptor (fst (convertEnv ext w options))"
proof -
  let ?fo = "\<lparr>whitelist = (if non_empty (whitelist options) then whitelist options else None),
             exclude = (if non_empty (exclude options) then exclude options else None),
             prefix = (if truthy (prefix options) then prefix options else None)\<rparr>"
  obtain v warned where v: "validateFilters ?fo = (v, warned)" by (cases "validateFilters ?fo")
  let ?w = "warn w warned"
  show ?thesis
  proof (cases "valid v")
    case False
    then show ?thesis by (simp add: convertEnv_def v descriptor_failure)
  next
    case True
    show ?thesis
    proof (cases "resolve_file ?w (file_opt options)")
      case (Inl r)
      then show ?thesis using True by (simp add: convertEnv_def v descriptor_resolve_file)
    next
      case (Inr p)
      obtain envFile w' where p: "p = (envFile, w')" by (cases p)
      show ?thesis
      proof (cases "readFile w' envFile")
        case (Inl e)
        then show ?thesis using True Inr p by (simp add: convertEnv_def v descriptor_failure)
      next
        case content: (Inr content)
        show ?thesis
        proof (cases "generateExample_opt options")
          case ex: True
          then show ?thesis using True Inr p content
            by (simp add: convertEnv_def v descriptor_write_example)
        next
          case ex: False
          then show ?thesis using True Inr p content
            by (cases "transform ext (parseEnv content) options")
               (simp_all add: convertEnv_def v descriptor_failure descriptor_deliver)
        qed
      qed
    qed
  qed
qed

lemmas convert_defs =
  convertEnv_def validateFilters_def resolve_file_def write_example_def deliver_def
  transform_def failure_def warn_def fileExists_def readFile_def writeFile_def
  formatOutput_def toLowerCase_def lower_case_def upper_case_def JSON_stringify_def
  JSON_member_def quote_def quote_char_def generateExample_def sample_world_def
  sample_options_def filter_options.truncate_def

text \<open>
  The theorem at two runs in the sample world: the default options succeed with data, and
  an unknown format fails with its error (after the fallback to \<^verbatim>\<open>.env\<close>).
\<close>

theorem convertEnv_descriptor_witness:
  "success (fst (convertEnv literal_externals sample_world sample_options)) \<and>
   data (fst (convertEnv literal_externals sample_world sample_options)) \<noteq> None \<and>
   \<not> success (fst (convertEnv literal_externals sample_world
                      (sample_options\<lparr>file_opt := ''missing'', format := ''xml''\<rparr>))) \<and>
   error (fst (convertEnv literal_externals sample_world
                 (sample_options\<lparr>file_opt := ''missing'', format := ''xml''\<rparr>))) =
     Some ''Unsupported format: xml. Supported formats: json, yaml, js''"
  using convertEnv_descriptor [of literal_externals sample_world sample_options]
    convertEnv_descriptor [of literal_externals sample_world
      "sample_options\<lparr>file_opt := ''missing'', format := ''xml''\<rparr>"]
  by (simp add: convert_defs filter_defs parse_defs descriptor_def Let_def)

lemma join_lines: "xs \<noteq> [] \<Longrightarrow> join [LF] xs @ [LF] = concat (map (\<lambda>x. x @ [LF]) xs)"
  by (induction "[LF]" xs rule: join.induct) auto

lemma generateExample_lines:
  "env \<noteq> [] \<Longrightarrow>
   generateExample env = concat (map (\<lambda>key. key @ ''='' @ [LF]) (sort (map fst env)))"
proof -
  assume "env \<noteq> []"
  then have "map (\<lambda>key. key @ ''='') (sort (map fst env)) \<noteq> []"
    by (metis Nil_is_map_conv length_0_conv length_sort)
  from join_lines [OF this] show ?thesis
    by (simp add: generateExample_def comp_def)
qed

lemma validation_passes:
  "valid (fst (validateFilters
     \<lparr>whitelist = (if non_empty wl then wl else None),
      exclude = (if non_empty ex then ex else None),
      prefix = (if truthy p then p else None)\<rparr>))"
  by (auto simp: validateFilters_def non_empty_def Let_def)

lemma same_files_refl [simp]: "same_files w w"
  by (simp add: same_files_def)

lemma same_files_warn [simp]: "same_files (warn w ls) w' = same_files w w'"
  by (simp add: same_files_def warn_def)

lemma same_files_warn2 [simp]: "same_files w (warn w' ls) = same_files w w'"
  by (simp add: same_files_def warn_def)

lemma same_files_readFile: "same_files a b \<Longrightarrow> readFile a f = readFile b f"
  by (simp add: same_files_def readFile_def)

lemma same_files_write_example:
  "same_files a b \<Longrightarrow>
   fst (write_example a f env) = fst (write_example b f env) \<and>
   same_files (snd (write_example a f env)) (snd (write_example b f env))"
  by (auto simp: same_files_def write_example_def writeFile_def Let_def split: option.splits)

lemma same_files_resolve_file:
  "same_files a b \<Longrightarrow>
   (case resolve_file a f of
      Inl r \<Rightarrow> resolve_file b f = Inl r
    | Inr (g, a') \<Rightarrow> (\<exists>b'. resolve_file b f = Inr (g, b') \<and> same_files a' b'))"
  by (auto simp: resolve_file_def fileExists_def Let_def same_files_def warn_def)

lemma convertEnv_example_mode:
  assumes "generateExample_opt options"
  shows "\<exists>w1. same_files w1 w \<and> convertEnv ext w options = example_run w1 (file_opt options)"
proof -
  let ?fo = "\<lparr>whitelist = (if non_empty (whitelist options) then whitelist options else None),
             exclude = (if non_empty (exclude options) then exclude options else None),
             prefix = (if truthy (prefix options) then prefix options else None)\<rparr>"
  obtain v warned where v: "validateFilters ?fo = (v, warned)" by (cases "validateFilters ?fo")
  have "valid v" using validation_passes [of "whitelist options" "exclude options" "prefix options"] v
    by simp
  then have "convertEnv ext w options = example_run (warn w warned) (file_opt options)"
    using assms by (simp add: convertEnv_def v example_run_def split: sum.splits prod.splits)
  then show ?thesis by (intro exI [of _ "warn w warned"]) simp
qed

lemma same_files_example_run:
  assumes "same_files a b"
  shows "fst (example_run a f) = fst (example_run b f) \<and>
         same_files (snd (example_run a f)) (snd (example_run b f))"
proof (cases "resolve_file a f")
  case (Inl r)
  then have "resolve_file b f = Inl r" using same_files_resolve_file [OF assms, of f] by simp
  then show ?thesis using Inl assms by (simp add: example_run_def)
next
  case (Inr p)
  obtain g a' where p: "p = (g, a')" by (cases p)
  obtain b' where b': "resolve_file b f = Inr (g, b')" "same_files a' b'"
    using same_files_resolve_file [OF assms, of f] Inr p by auto
  show ?thesis
  proof (cases "readFile a' g")
    case (Inl e)
    then show ?thesis
      using Inr p b' same_files_readFile [OF b'(2), of g] by (simp add: example_run_def)
  next
    case content: (Inr content)
    then show ?thesis
      using Inr p b' same_files_readFile [OF b'(2), of g]
        same_files_write_example [OF b'(2), of g "parseEnv content"]
      by (simp add: example_run_def)
  qed
qed

lemma same_files_sym: "same_files a b \<Longrightarrow> same_files b a"
  by (simp add: same_files_def)

lemma same_files_trans: "same_files a b \<Longrightarrow> same_files b c \<Longrightarrow> same_files a c"
  by (simp add: same_files_def)

lemma example_run_data:
  assumes "success (fst (example_run w f))"
  shows "\<exists>content. (fs_read w f = Inr content \<or> fs_read w ''.env'' = Inr content) \<and>
           data (fst (example_run w f)) = Some (generateExample (parseEnv content))"
proof (cases "resolve_file w f")
  case (Inl r)
  then have "\<not> success r" by (auto simp: resolve_file_def Let_def split: if_splits)
  then show ?thesis using assms Inl by (simp add: example_run_def)
next
  case (Inr p)
  obtain g w' where p: "p = (g, w')" by (cases p)
  have g: "(g = f \<or> g = ''.env'') \<and> fs_read w' = fs_read w"
    using Inr p by (auto simp: resolve_file_def Let_def warn_def split: if_splits)
  show ?thesis
  proof (cases "readFile w' g")
    case (Inl e)
    then show ?thesis using assms Inr p by (simp add: example_run_def)
  next
    case content: (Inr content)
    then have "fs_read w g = Inr content"
      using g by (auto simp: readFile_def split: sum.splits)
    moreover have "data (fst (write_example w' g (parseEnv content))) =
        Some (generateExample (parseEnv content))"
      using assms Inr p content
      by (auto simp: example_run_def write_example_def Let_def split: sum.splits)
    ultimately show ?thesis using Inr p content g by (auto simp: example_run_def)
  qed
qed

text \<open>
  Claim C6: the example document has the keys of the parsed mapping in ascending
  lexicographic order, each as \<^verbatim>\<open>KEY=\<close> on a line of its own that a newline ends
  (for no key at all it is one empty line);
  \<^verbatim>\<open>generateExample({B:1,A:2})\<close> is \<^verbatim>\<open>"A=\nB=\n"\<close>. When \<^verbatim>\<open>generateExample\<close>
  is set, the result of \<^verbatim>\<open>convertEnv\<close> and the files it leaves do not depend on the
  options whitelist, exclude, prefix and redact, and the data of a success is the example
  document of the whole parsed file.
\<close>

theorem generateExample_short_circuit:
  "(env \<noteq> [] \<longrightarrow>
      generateExample env = concat (map (\<lambda>key. key @ ''='' @ [LF]) (sort (map fst env)))) \<and>
   generateExample [] = [LF] \<and>
   generateExample [(''B'', ''1''), (''A'', ''2'')] = ''A='' @ [LF] @ ''B='' @ [LF] \<and>
   (generateExample_opt options \<longrightarrow>
      fst (convertEnv ext w (options\<lparr>whitelist := wl, exclude := ex, prefix := p, redact := r\<rparr>)) =
        fst (convertEnv ext w options) \<and>
      same_files
        (snd (convertEnv ext w (options\<lparr>whitelist := wl, exclude := ex, prefix := p, redact := r\<rparr>)))
        (snd (convertEnv ext w options))) \<and>
   (generateExample_opt options \<and> success (fst (convertEnv ext w options)) \<longrightarrow>
      (\<exists>content. (fs_read w (file_opt options) = Inr content \<or> fs_read w ''.env'' = Inr content) \<and>
         data (fst (convertEnv ext w options)) = Some (generateExample (parseEnv content))))"
proof (intro conjI impI)
  assume "env \<noteq> []"
  then show "generateExample env = concat (map (\<lambda>key. key @ ''='' @ [LF]) (sort (map fst env)))"
    by (rule generateExample_lines)
next
  show "generateExample [] = [LF]" by (simp add: generateExample_def)
next
  show "generateExample [(''B'', ''1''), (''A'', ''2'')] = ''A='' @ [LF] @ ''B='' @ [LF]"
    by (simp add: generateExample_def)
next
  let ?o = "options\<lparr>whitelist := wl, exclude := ex, prefix := p, redact := r\<rparr>"
  assume g: "generateExample_opt options"
  then obtain w1 where w1: "same_files w1 w" "convertEnv ext w options = example_run w1 (file_opt options)"
    using convertEnv_example_mode by blast
  have "generateExample_opt ?o" using g by simp
  then obtain w2 where w2: "same_files w2 w" "convertEnv ext w ?o = example_run w2 (file_opt ?o)"
    using convertEnv_example_mode by blast
  have "same_files w2 w1" using w1(1) w2(1) same_files_sym same_files_trans by blast
  from same_files_example_run [OF this, of "file_opt options"]
  show "fst (convertEnv ext w ?o) = fst (convertEnv ext w options)"
    and "same_files (snd (convertEnv ext w ?o)) (snd (convertEnv ext w options))"
    by (simp_all add: w1(2) w2(2))
next
  assume a: "generateExample_opt options \<and> success (fst (convertEnv ext w options))"
  then obtain w1 where w1: "same_files w1 w" "convertEnv ext w options = example_run w1 (file_opt options)"
    using convertEnv_example_mode by blast
  have "fs_read w1 = fs_read w" using w1(1) by (simp add: same_files_def)
  then show "\<exists>content. (fs_read w (file_opt options) = Inr content \<or> fs_read w ''.env'' = Inr content) \<and>
         data (fst (convertEnv ext w options)) = Some (generateExample (parseEnv content))"
    using example_run_data [of w1 "file_opt options"] a by (simp add: w1(2))
qed

theorem generateExample_short_circuit_witness:
  "generateExample [(''B'', ''1''), (''A'', ''2'')] = ''A='' @ [LF] @ ''B='' @ [LF] \<and>
   success (fst (convertEnv literal_externals sample_world
                   (sample_options\<lparr>generateExample_opt := True\<rparr>))) \<and>
   fst (convertEnv literal_externals sample_world
          (sample_options\<lparr>generateExample_opt := True, whitelist := Some [''A''],
             exclude := Some [''B''], prefix := Some ''X'', redact := [''A'']\<rparr>)) =
     \<lparr>success = True, data = Some (''A='' @ [LF] @ ''B='' @ [LF]), error = None,
      message_of = Some ''Generated .env.example''\<rparr>"
  using generateExample_short_circuit [where env = "[(''B'', ''1''), (''A'', ''2'')]"
      and options = "sample_options\<lparr>generateExample_opt := True\<rparr>"
      and ext = literal_externals and w = sample_world
      and wl = "Some [''A'']" and ex = "Some [''B'']" and p = "Some ''X''" and r = "[''A'']"]
  by (simp add: convert_defs filter_defs parse_defs Let_def)

lemma example_path_no_terminator:
  "\<not> list_ex line_terminator f \<Longrightarrow> example_path f = replace_from_first_env f"
proof (induction f)
  case Nil
  then show ?case by simp
next
  case (Cons c cs)
  then have "\<not> list_ex line_terminator (drop 4 (c # cs))"
    by (auto simp: list_ex_iff dest: in_set_dropD)
  then show ?case using Cons by simp
qed

lemma example_path_no_env: "\<not> str_includes f ''.env'' \<Longrightarrow> example_path f = f"
  by (induction f) (auto simp: startsWith_def)

lemma example_run_overwrites:
  assumes "\<not> str_includes f ''.env''" and "fs_exists w f" and "fs_read w f = Inr content"
    and "fs_write_error w f = None"
  shows "fs_read (snd (example_run w f)) f = Inr (generateExample (parseEnv content)) \<and>
         message_of (fst (example_run w f)) = Some (''Generated '' @ f)"
  using assms example_path_no_env [OF assms(1)]
  by (simp add: example_run_def resolve_file_def fileExists_def readFile_def write_example_def
        writeFile_def Let_def)

lemma example_run_path:
  assumes "envFile = (if fs_exists w file then file else ''.env'')"
    and "fs_exists w envFile" and "fs_read w envFile = Inr content"
    and "fs_write_error w (example_path envFile) = None"
  shows "fst (example_run w file) =
           \<lparr>success = True, data = Some (generateExample (parseEnv content)), error = None,
            message_of = Some (''Generated '' @ example_path envFile)\<rparr> \<and>
         fs_read (snd (example_run w file)) (example_path envFile) =
           Inr (generateExample (parseEnv content)) \<and>
         (\<forall>p. p \<noteq> example_path envFile \<longrightarrow>
            fs_read (snd (example_run w file)) p = fs_read w p)"
proof (cases "fs_exists w file")
  case True
  then show ?thesis using assms
    by (simp add: example_run_def resolve_file_def fileExists_def readFile_def write_example_def
          writeFile_def Let_def)
next
  case False
  then have "file \<noteq> ''.env''" "fs_exists w ''.env''" using assms by auto
  then show ?thesis using False assms
    by (simp add: example_run_def resolve_file_def fileExists_def readFile_def write_example_def
          writeFile_def warn_def Let_def)
qed

lemma convertEnv_example_path:
  assumes "generateExample_opt options"
    and "envFile = (if fs_exists w (file_opt options) then file_opt options else ''.env'')"
    and "fs_exists w envFile" and "fs_read w envFile = Inr content"
    and "fs_write_error w (example_path envFile) = None"
  shows "fst (convertEnv ext w options) =
           \<lparr>success = True, data = Some (generateExample (parseEnv content)), error = None,
            message_of = Some (''Generated '' @ example_path envFile)\<rparr> \<and>
         fs_read (snd (convertEnv ext w options)) (example_path envFile) =
           Inr (generateExample (parseEnv content)) \<and>
         (\<forall>p. p \<noteq> example_path envFile \<longrightarrow>
            fs_read (snd (convertEnv ext w options)) p = fs_read w p)"
proof -
  obtain w1 where w1: "same_files w1 w" "convertEnv ext w options = example_run w1 (file_opt options)"
    using convertEnv_example_mode [OF assms(1)] by blast
  have "envFile = (if fs_exists w1 (file_opt options) then file_opt options else ''.env'')"
    "fs_exists w1 envFile" "fs_read w1 envFile = Inr content"
    "fs_write_error w1 (example_path envFile) = None" "fs_read w1 = fs_read w"
    using assms w1(1) by (simp_all add: same_files_def)
  then show ?thesis using example_run_path [of envFile w1 "file_opt options" content]
    by (simp add: w1(2))
qed

text \<open>
  Claim C9, as the code has it. The name from which the path is derived is the name of
  the file that \<^verbatim>\<open>convertEnv\<close> reads: the file of the options when it exists, and
  \<^verbatim>\<open>.env\<close> when it does not and \<^verbatim>\<open>.env\<close> does. When \<^verbatim>\<open>generateExample\<close> is set
  and that file can be read and the derived path written, \<^verbatim>\<open>convertEnv\<close> succeeds,
  writes the example document of the parsed file to the derived path and to no other,
  and reports \<^verbatim>\<open>Generated\<close> and that path. The derived path is \<open>example_path\<close> of the
  name; for a name without a line terminator this is the name with its first
  \<^verbatim>\<open>.env\<close> and everything after it replaced by \<^verbatim>\<open>.env.example\<close>, and for a name
  without \<^verbatim>\<open>.env\<close> it is the name itself, so that a run on such a file, when it
  exists, leaves the example document in that very file.
\<close>

theorem example_path_derivation:
  "(\<not> list_ex line_terminator f \<longrightarrow> example_path f = replace_from_first_env f) \<and>
   (\<not> str_includes f ''.env'' \<longrightarrow> example_path f = f) \<and>
   (generateExample_opt options \<and>
    envFile = (if fs_exists w (file_opt options) then file_opt options else ''.env'') \<and>
    fs_exists w envFile \<and> fs_read w envFile = Inr content \<and>
    fs_write_error w (example_path envFile) = None \<longrightarrow>
      fst (convertEnv ext w options) =
        \<lparr>success = True, data = Some (generateExample (parseEnv content)), error = None,
         message_of = Some (''Generated '' @ example_path envFile)\<rparr> \<and>
      fs_read (snd (convertEnv ext w options)) (example_path envFile) =
        Inr (generateExample (parseEnv content)) \<and>
      (\<forall>p. p \<noteq> example_path envFile \<longrightarrow>
         fs_read (snd (convertEnv ext w options)) p = fs_read w p)) \<and>
   (generateExample_opt options \<and>
    envFile = (if fs_exists w (file_opt options) then file_opt options else ''.env'') \<and>
    fs_exists w envFile \<and> fs_read w envFile = Inr content \<and>
    \<not> list_ex line_terminator envFile \<and>
    fs_write_error w (replace_from_first_env envFile) = None \<longrightarrow>
      message_of (fst (convertEnv ext w options)) =
        Some (''Generated '' @ replace_from_first_env envFile) \<and>
      fs_read (snd (convertEnv ext w options)) (replace_from_first_env envFile) =
        Inr (generateExample (parseEnv content))) \<and>
   (generateExample_opt options \<and> \<not> str_includes (file_opt options) ''.env'' \<and>
    fs_exists w (file_opt options) \<and> fs_read w (file_opt options) = Inr content \<and>
    fs_write_error w (file_opt options) = None \<longrightarrow>
      fs_read (snd (convertEnv ext w options)) (file_opt options) =
        Inr (generateExample (parseEnv content)) \<and>
      message_of (fst (convertEnv ext w options)) = Some (''Generated '' @ file_opt options))"
proof (intro conjI impI)
  assume "\<not> list_ex line_terminator f"
  then show "example_path f = replace_from_first_env f" by (rule example_path_no_terminator)
next
  assume "\<not> str_includes f ''.env''"
  then show "example_path f = f" by (rule example_path_no_env)
next
  assume a: "generateExample_opt options \<and>
    envFile = (if fs_exists w (file_opt options) then file_opt options else ''.env'') \<and>
    fs_exists w envFile \<and> fs_read w envFile = Inr content \<and>
    fs_write_error w (example_path envFile) = None"
  then have r: "fst (convertEnv ext w options) =
           \<lparr>success = True, data = Some (generateExample (parseEnv content)), error = None,
            message_of = Some (''Generated '' @ example_path envFile)\<rparr> \<and>
         fs_read (snd (convertEnv ext w options)) (example_path envFile) =
           Inr (generateExample (parseEnv content)) \<and>
         (\<forall>p. p \<noteq> example_path envFile \<longrightarrow>
            fs_read (snd (convertEnv ext w options)) p = fs_read w p)"
    using convertEnv_example_path [where options = options and envFile = envFile and w = w
        and content = content and ext = ext]
    by blast
  from r show "fst (convertEnv ext w options) =
        \<lparr>success = True, data = Some (generateExample (parseEnv content)), error = None,
         message_of = Some (''Generated '' @ example_path envFile)\<rparr>" by simp
  from r show "fs_read (snd (convertEnv ext w options)) (example_path envFile) =
        Inr (generateExample (parseEnv content))" by simp
  from r show "\<forall>p. p \<noteq> example_path envFile \<longrightarrow>
         fs_read (snd (convertEnv ext w options)) p = fs_read w p" by simp
next
  assume a: "generateExample_opt options \<and>
    envFile = (if fs_exists w (file_opt options) then file_opt options else ''.env'') \<and>
    fs_exists w envFile \<and> fs_read w envFile = Inr content \<and>
    \<not> list_ex line_terminator envFile \<and>
    fs_write_error w (replace_from_first_env envFile) = None"
  then have "\<not> list_ex line_terminator envFile" by blast
  then have p: "example_path envFile = replace_from_first_env envFile"
    by (rule example_path_no_terminator)
  from a have "fs_write_error w (replace_from_first_env envFile) = None" by blast
  then have we: "fs_write_error w (example_path envFile) = None" by (simp only: p)
  have r: "fst (convertEnv ext w options) =
           \<lparr>success = True, data = Some (generateExample (parseEnv content)), error = None,
            message_of = Some (''Generated '' @ example_path envFile)\<rparr> \<and>
         fs_read (snd (convertEnv ext w options)) (example_path envFile) =
           Inr (generateExample (parseEnv content)) \<and>
         (\<forall>p. p \<noteq> example_path envFile \<longrightarrow>
            fs_read (snd (convertEnv ext w options)) p = fs_read w p)"
    using a we convertEnv_example_path [where options = options and envFile = envFile and w = w
        and content = content and ext = ext]
    by blast
  from r p show "message_of (fst (convertEnv ext w options)) =
        Some (''Generated '' @ replace_from_first_env envFile)" by simp
  from r p show "fs_read (snd (convertEnv ext w options)) (replace_from_first_env envFile) =
        Inr (generateExample (parseEnv content))" by simp
next
  assume a: "generateExample_opt options \<and> \<not> str_includes (file_opt options) ''.env'' \<and>
    fs_exists w (file_opt options) \<and> fs_read w (file_opt options) = Inr content \<and>
    fs_write_error w (file_opt options) = None"
  then obtain w1 where w1: "same_files w1 w" "convertEnv ext w options = example_run w1 (file_opt options)"
    using convertEnv_example_mode by blast
  have "\<not> str_includes (file_opt options) ''.env''" "fs_exists w1 (file_opt options)"
    "fs_read w1 (file_opt options) = Inr content" "fs_write_error w1 (file_opt options) = None"
    using a w1(1) by (simp_all add: same_files_def)
  from example_run_overwrites [OF this]
  show "fs_read (snd (convertEnv ext w options)) (file_opt options) =
        Inr (generateExample (parseEnv content))"
    and "message_of (fst (convertEnv ext w options)) = Some (''Generated '' @ file_opt options)"
    by (simp_all add: w1(2))
qed

text \<open>
  The theorem at three runs. The file \<^verbatim>\<open>missing\<close> does not exist and \<^verbatim>\<open>.env\<close> does:
  the example goes to \<^verbatim>\<open>.env.example\<close>, and \<^verbatim>\<open>.env\<close> keeps its content. The file
  \<^verbatim>\<open>prod.env.local\<close> exists: the example goes to \<^verbatim>\<open>prod.env.example\<close>. The file
  \<^verbatim>\<open>settings\<close> exists: the example replaces its content.
\<close>

theorem example_path_derivation_witness:
  "example_path ''prod.env.local'' = ''prod.env.example'' \<and>
   fst (convertEnv literal_externals sample_world
          (sample_options\<lparr>file_opt := ''missing'', generateExample_opt := True\<rparr>)) =
     \<lparr>success = True, data = Some (''A='' @ [LF] @ ''B='' @ [LF]), error = None,
      message_of = Some ''Generated .env.example''\<rparr> \<and>
   fs_read (snd (convertEnv literal_externals sample_world
                   (sample_options\<lparr>file_opt := ''missing'', generateExample_opt := True\<rparr>)))
     ''.env.example'' = Inr (''A='' @ [LF] @ ''B='' @ [LF]) \<and>
   fs_read (snd (convertEnv literal_externals sample_world
                   (sample_options\<lparr>file_opt := ''missing'', generateExample_opt := True\<rparr>)))
     ''.env'' = Inr (''B=1'' @ [LF] @ ''A=2'') \<and>
   message_of (fst (convertEnv literal_externals
                      (sample_world\<lparr>fs_exists := (\<lambda>p. p = ''prod.env.local''),
                         fs_read := (\<lambda>p. Inr ''A=1'')\<rparr>)
                      (sample_options\<lparr>file_opt := ''prod.env.local'', generateExample_opt := True\<rparr>))) =
     Some ''Generated prod.env.example'' \<and>
   example_path ''settings'' = ''settings'' \<and>
   fs_read sample_world ''settings'' = Inr (''B=1'' @ [LF] @ ''A=2'') \<and>
   fs_read (snd (convertEnv literal_externals sample_world
                   (sample_options\<lparr>file_opt := ''settings'', generateExample_opt := True\<rparr>)))
     ''settings'' = Inr (''A='' @ [LF] @ ''B='' @ [LF])"
  using example_path_derivation [where f = "''prod.env.local''"
      and options = "sample_options\<lparr>file_opt := ''missing'', generateExample_opt := True\<rparr>"
      and envFile = "''.env''"
      and w = sample_world and content = "''B=1'' @ [LF] @ ''A=2''" and ext = literal_externals]
    example_path_derivation [where f = "''prod.env.local''"
      and options = "sample_options\<lparr>file_opt := ''prod.env.local'', generateExample_opt := True\<rparr>"
      and envFile = "''prod.env.local''"
      and w = "sample_world\<lparr>fs_exists := (\<lambda>p. p = ''prod.env.local''),
                 fs_read := (\<lambda>p. Inr ''A=1'')\<rparr>"
      and content = "''A=1''" and ext = literal_externals]
    example_path_derivation [where f = "''settings''"
      and options = "sample_options\<lparr>file_opt := ''settings'', generateExample_opt := True\<rparr>"
      and envFile = "''settings''"
      and w = sample_world and content = "''B=1'' @ [LF] @ ''A=2''" and ext = literal_externals]
  by (simp add: line_terminator_def startsWith_def sample_world_def sample_options_def
        generateExample_def parse_defs)

text \<open>
  Claim C9 as stated fails for a file name with a line feed after its \<^verbatim>\<open>.env\<close>:
  the pattern \<^verbatim>\<open>/\.env.*$/\<close> cannot reach the end of the name, nothing is replaced,
  and the path is the file name itself although it contains \<^verbatim>\<open>.env\<close>.
\<close>

theorem example_path_stops_at_line_terminator:
  "example_path (''a.env'' @ [LF] @ ''b'') = ''a.env'' @ [LF] @ ''b'' \<and>
   replace_from_first_env (''a.env'' @ [LF] @ ''b'') = ''a.env.example''"
  by (simp add: line_terminator_def startsWith_def)

section \<open>Properties of the serialisation\<close>

declare parse_members.simps [simp del]

lemma hex_all: "list_all (\<lambda>n. hex_val (hex_digit n) = Some n) [0 ..< 16]"
  by code_simp

lemma hex_roundtrip: "n < 16 \<Longrightarrow> hex_val (hex_digit n) = Some n"
  using hex_all by (simp add: list_all_iff)

lemma parse_chars_control:
  assumes "(of_char c :: nat) < 32"
  shows "parse_chars (BACKSLASH # CHR ''u'' # CHR ''0'' # CHR ''0'' #
            hex_digit (of_char c div 16) # hex_digit (of_char c mod 16) # rest) =
         map_option (\<lambda>(s, r). (c # s, r)) (parse_chars rest)"
proof -
  have d: "(of_char c :: nat) div 16 < 16" "(of_char c :: nat) mod 16 < 16"
    using assms by auto
  have z: "hex_val (CHR ''0'') = Some 0" by (simp add: hex_val_def)
  have "code_unit 0 0 (of_char c div 16) (of_char c mod 16) = Some c"
    using assms by (simp add: code_unit_def)
  then show ?thesis
    by (simp add: z hex_roundtrip [OF d(1)] hex_roundtrip [OF d(2)])
qed


lemma quote_char_cases:
  obtains (special) e where "quote_char c = [BACKSLASH, e]" "json_escape e = Some c" "e \<noteq> CHR ''u''"
  | (control) "quote_char c = [BACKSLASH, CHR ''u'', CHR ''0'', CHR ''0'',
                 hex_digit (of_char c div 16), hex_digit (of_char c mod 16)]" "(of_char c :: nat) < 32"
  | (plain) "quote_char c = [c]" "c \<noteq> DQUOTE" "c \<noteq> BACKSLASH" "\<not> (of_char c :: nat) < 32"
proof -
  have e: "json_escape (CHR ''b'') = Some (CHR 0x08)" "json_escape (CHR ''t'') = Some TAB"
    "json_escape (CHR ''n'') = Some LF" "json_escape (CHR ''f'') = Some (CHR 0x0C)"
    "json_escape (CHR ''r'') = Some CR" "json_escape DQUOTE = Some DQUOTE"
    "json_escape BACKSLASH = Some BACKSLASH"
    by (simp_all add: json_escape_def)
  show ?thesis
  proof (cases "c = CHR 0x08")
    case True
    then show ?thesis using special [of "CHR ''b''"] e by (simp add: quote_char_def)
  next
    case n1: False
    show ?thesis
    proof (cases "c = TAB")
      case True
      then show ?thesis using special [of "CHR ''t''"] e by (simp add: quote_char_def)
    next
      case n2: False
      show ?thesis
      proof (cases "c = LF")
        case True
        then show ?thesis using special [of "CHR ''n''"] e by (simp add: quote_char_def)
      next
        case n3: False
        show ?thesis
        proof (cases "c = CHR 0x0C")
          case True
          then show ?thesis using special [of "CHR ''f''"] e by (simp add: quote_char_def)
        next
          case n4: False
          show ?thesis
          proof (cases "c = CR")
            case True
            then show ?thesis using special [of "CHR ''r''"] e by (simp add: quote_char_def)
          next
            case n5: False
            show ?thesis
            proof (cases "c = DQUOTE")
              case True
              then show ?thesis using special [of DQUOTE] e by (simp add: quote_char_def)
            next
              case n6: False
              show ?thesis
              proof (cases "c = BACKSLASH")
                case True
                then show ?thesis using special [of BACKSLASH] e by (simp add: quote_char_def)
              next
                case n7: False
                show ?thesis
                proof (cases "(of_char c :: nat) < 32")
                  case True
                  then show ?thesis using control n1 n2 n3 n4 n5 n6 n7
                    by (simp add: quote_char_def)
                next
                  case False
                  then show ?thesis using plain n1 n2 n3 n4 n5 n6 n7
                    by (simp add: quote_char_def)
                qed
              qed
            qed
          qed
        qed
      qed
    qed
  qed
qed

lemma parse_chars_quote_char:
  "parse_chars (quote_char c @ rest) =
     map_option (\<lambda>(s, r). (c # s, r)) (parse_chars rest)"
proof (cases c rule: quote_char_cases)
  case (special e)
  then show ?thesis by simp
next
  case control
  then show ?thesis using parse_chars_control [of c rest] by simp
next
  case plain
  then show ?thesis by simp
qed

lemma parse_chars_quoted:
  "parse_chars (concat (map quote_char s) @ DQUOTE # rest) = Some (s, rest)"
  by (induction s) (simp_all add: parse_chars_quote_char)

lemma parse_string_quote: "parse_string (quote s @ rest) = Some (s, rest)"
  by (simp add: parse_string_def quote_def parse_chars_quoted)

lemma skip_ws_simps [simp]:
  "skip_ws [] = []"
  "skip_ws (CHR '' '' # s) = skip_ws s"
  "skip_ws (LF # s) = skip_ws s"
  "skip_ws (DQUOTE # s) = DQUOTE # s"
  "skip_ws (CHR '':'' # s) = CHR '':'' # s"
  "skip_ws (CHR '','' # s) = CHR '','' # s"
  "skip_ws (CHR ''{'' # s) = CHR ''{'' # s"
  "skip_ws (CHR ''}'' # s) = CHR ''}'' # s"
  by (simp_all add: skip_ws_def json_ws_def)

lemma skip_ws_quote [simp]: "skip_ws (quote s @ rest) = quote s @ rest"
  by (simp add: quote_def)

lemma parse_member_text:
  "parse_member (quote k @ CHR '':'' # CHR '' '' # quote v @ rest) = Some ((k, v), rest)"
  by (simp add: parse_member_def parse_string_quote)

lemma skip_ws_member [simp]:
  "skip_ws (JSON_member e @ rest) = quote (fst e) @ '': '' @ quote (snd e) @ rest"
  by (simp add: JSON_member_def)

lemma parse_members_text:
  "es \<noteq> [] \<Longrightarrow>
   parse_members obj
     (skip_ws (join ('','' @ [LF]) (map JSON_member es) @ LF # CHR ''}'' # rest)) =
   Some (foldl (\<lambda>acc (k, v). obj_define acc k v) obj es, rest)"
proof (induction es arbitrary: obj)
  case Nil
  then show ?case by simp
next
  case (Cons e es)
  obtain k v where e: "e = (k, v)" by (cases e)
  show ?case
  proof (cases es)
    case Nil
    then show ?thesis
      by (subst parse_members.simps) (simp add: e parse_member_text)
  next
    case (Cons e' es')
    then have "es \<noteq> []" by simp
    note IH = Cons.IH [OF this, of "obj_define obj k v"]
    show ?thesis
      using IH
      by (subst parse_members.simps) (simp add: e Cons parse_member_text)
  qed
qed

lemma rebuild_define:
  "wf_obj env \<Longrightarrow> foldl (\<lambda>acc (k, v). obj_define acc k v) [] env = env"
proof (induction env rule: rev_induct)
  case Nil
  then show ?case by simp
next
  case (snoc e env)
  obtain k v where e: "e = (k, v)" by (cases e)
  have IH: "foldl (\<lambda>acc (k, v). obj_define acc k v) [] env = env"
    using snoc wf_obj_butlast by blast
  have "\<not> has_own env k" using snoc.prems by (auto simp: wf_obj_def has_own_def e)
  moreover have "define_new k v env = env @ [(k, v)]"
    using snoc.prems by (intro define_new_last) (simp add: e)
  ultimately have "obj_define env k v = env @ [(k, v)]" by (simp add: obj_define_def)
  moreover have "foldl (\<lambda>acc (k, v). obj_define acc k v) [] (env @ [e]) =
      obj_define (foldl (\<lambda>acc (k, v). obj_define acc k v) [] env) k v"
    by (simp add: e)
  ultimately show ?case by (simp only: IH e)
qed

lemma JSON_roundtrip: "wf_obj env \<Longrightarrow> JSON_parse (JSON_stringify env) = Some env"
proof (cases "env = []")
  case True
  then show ?thesis by (simp add: JSON_parse_def JSON_stringify_def)
next
  case False
  assume wf: "wf_obj env"
  obtain e es where env: "env = e # es" using False by (cases env) auto
  let ?body = "join ('','' @ [LF]) (map JSON_member env) @ LF # CHR ''}'' # []"
  have p: "parse_members [] (skip_ws ?body) = Some (env, [])"
    using parse_members_text [OF False, of "[]" "[]"] rebuild_define [OF wf] by simp
  have "\<exists>r. skip_ws ?body = DQUOTE # r"
    by (cases es) (simp_all add: env quote_def)
  then obtain r where r: "skip_ws ?body = DQUOTE # r" by blast
  show ?thesis
    using p r False by (simp add: JSON_parse_def JSON_stringify_def)
qed

text \<open>
  Claim C7: for every mapping with string values, \<^verbatim>\<open>formatOutput(env, "json")\<close> is the
  JSON text of the mapping, and \<^verbatim>\<open>JSON.parse\<close> of that text is the mapping again: the
  same keys in the same order with the same values.
\<close>

theorem JSON_round_trip:
  "wf_obj env \<longrightarrow>
     formatOutput ext env ''json'' = Inr (JSON_stringify env) \<and>
     JSON_parse (JSON_stringify env) = Some env"
  by (simp add: JSON_roundtrip formatOutput_def toLowerCase_def lower_case_def upper_case_def)

theorem JSON_round_trip_witness:
  "wf_obj [(''7'', ''a''), (''K'', ''x'' @ [LF, DQUOTE] @ ''y'')] \<and>
   JSON_stringify [(''7'', ''a''), (''K'', ''x'' @ [LF, DQUOTE] @ ''y'')] =
     ''{'' @ [LF] @ ''  '' @ [DQUOTE] @ ''7'' @ [DQUOTE] @ '': '' @ [DQUOTE] @ ''a'' @ [DQUOTE] @
     '','' @ [LF] @ ''  '' @ [DQUOTE] @ ''K'' @ [DQUOTE] @ '': '' @ [DQUOTE] @ ''x'' @
     [BACKSLASH] @ ''n'' @ [BACKSLASH, DQUOTE] @ ''y'' @ [DQUOTE] @ [LF] @ ''}'' \<and>
   JSON_parse
     (''{'' @ [LF] @ ''  '' @ [DQUOTE] @ ''7'' @ [DQUOTE] @ '': '' @ [DQUOTE] @ ''a'' @ [DQUOTE] @
      '','' @ [LF] @ ''  '' @ [DQUOTE] @ ''K'' @ [DQUOTE] @ '': '' @ [DQUOTE] @ ''x'' @
      [BACKSLASH] @ ''n'' @ [BACKSLASH, DQUOTE] @ ''y'' @ [DQUOTE] @ [LF] @ ''}'') =
     Some [(''7'', ''a''), (''K'', ''x'' @ [LF, DQUOTE] @ ''y'')]"
  using JSON_round_trip [of "[(''7'', ''a''), (''K'', ''x'' @ [LF, DQUOTE] @ ''y'')]" literal_externals]
  by (simp add: filter_defs parse_defs JSON_stringify_def JSON_member_def quote_def
        quote_char_def)

end
